theory Spec2Isabelle
  imports Complex_Main "HOL-Library.Multiset"
begin

section \<open>Shallow embedding of the CUDA backend (src/Backend/CUDA.cc)\<close>

text \<open>
  The generator walks an MLIR module and appends text to one global stream. The embedding
  keeps the source's names. Every emitter returns the text it appends to \<open>source\<close>;
  the module driver concatenates the pieces in the order the source writes them.

  Failures of the C++ are values. \<open>AssertionFailed\<close> is a failed \<open>assert\<close>:
  the process aborts. \<open>UndefinedBehaviour\<close> is an out-of-range index, a
  dereferenced null handle, a \<open>std::string\<close> built from \<open>nullptr\<close>, or the end of
  \<open>setValueName\<close> reached with no \<open>return\<close> statement in a build that does not come
  back from it. The source has no other way to fail: all its emitters return \<open>void\<close>.
\<close>

datatype error = AssertionFailed | UndefinedBehaviour

definition bindE :: "error + 'a \<Rightarrow> ('a \<Rightarrow> error + 'b) \<Rightarrow> error + 'b" where
  "bindE m f = (case m of Inl e \<Rightarrow> Inl e | Inr x \<Rightarrow> f x)"

text \<open>
  \<open>assert(c)\<close>: with \<open>NDEBUG\<close> defined the macro expands to nothing and execution
  continues; otherwise a false condition aborts.
\<close>

definition cassert :: "bool \<Rightarrow> bool \<Rightarrow> error + unit" where
  "cassert ndebug c = (if c \<or> ndebug then Inr () else Inl AssertionFailed)"

subsection \<open>Integers and their decimal text\<close>

text \<open>
  \<open>std::to_string\<close> and \<open>operator<<\<close> on an integer write its decimal digits, with a
  leading minus sign for a negative value.
\<close>

definition digit :: "nat \<Rightarrow> char" where
  "digit d = ''0123456789'' ! d"

function showDigits :: "int \<Rightarrow> string" where
  "showDigits n =
     (if n < 10 then [digit (nat n)] else showDigits (n div 10) @ [digit (nat (n mod 10))])"
  by pat_completeness auto
termination
  by (relation "measure nat") auto

declare showDigits.simps [simp del]

definition to_string :: "int \<Rightarrow> string" where
  "to_string i = (if i < 0 then CHR ''-'' # showDigits (- i) else showDigits i)"

text \<open>
  Conversion of a 64-bit value to \<open>int\<close> (32 bits, two's complement): the value is
  reduced modulo \<open>2^32\<close> into \<open>[-2^31, 2^31)\<close>.
\<close>

definition toInt32 :: "int \<Rightarrow> int" where
  "toInt32 x = (x + 2147483648) mod 4294967296 - 2147483648"

definition fitsInt32 :: "int \<Rightarrow> bool" where
  "fitsInt32 x = (- 2147483648 \<le> x \<and> x < 2147483648)"

text \<open>
  Integer division of C and C++ truncates towards zero; division by zero is undefined.
\<close>

definition c_div :: "int \<Rightarrow> int \<Rightarrow> int option" where
  "c_div a b = (if b = 0 then None else Some (sgn a * sgn b * (\<bar>a\<bar> div \<bar>b\<bar>)))"

text \<open>
  The index arithmetic the generator writes goes into \<open>int\<close> variables
  (\<open>int expr0 = ...\<close>, \<open>for (int iter0 = ...\<close>), so the target computes the text
  \<open>((L + R - 1) / R)\<close> in \<open>int\<close>. \<open>ceilDivValue lhs rhs\<close> is what it computes when the
  operands have the values \<open>lhs\<close> and \<open>rhs\<close>: the sum and the difference are reduced to 32
  bits, as two's complement hardware does (a signed overflow is undefined in C++).
\<close>

definition ceilDivValue :: "int \<Rightarrow> int \<Rightarrow> int option" where
  "ceilDivValue lhs rhs = c_div (toInt32 (toInt32 (lhs + rhs) - 1)) rhs"

subsection \<open>Types and values\<close>

datatype elementType = Float16Type | Float32Type | Float64Type | IntegerType | IndexType
  | OtherElementType

text \<open>
  Modelled from the spec: \<open>enum.h\<close>, which declares \<open>MemorySpace\<close>, is not among the
  sources; the spec gives its three members.
\<close>

datatype MemorySpace = global | shared | local_space

datatype mlirType =
    ScalarType elementType
  | MemRefType elementType "int list" MemorySpace
  | VectorType elementType "int list"

text \<open>
  An \<open>mlir::Value\<close> is a handle compared by identity. The model keeps a number that
  identifies the handle and, beside it, the type \<open>getType()\<close> returns. The address
  \<open>getAsOpaquePointer()\<close> returns, different for different handles, is fixed for one run
  only: it is a parameter of \<open>collectVars\<close>, the one function that goes through values in
  the order of their addresses.
\<close>

datatype val = Value (getImpl: nat) (getType: mlirType)

fun toCStr :: "mlirType \<Rightarrow> error + string" where
  "toCStr (ScalarType Float16Type) = Inr ''half_t''"
| "toCStr (ScalarType Float32Type) = Inr ''float''"
| "toCStr (ScalarType Float64Type) = Inr ''double''"
| "toCStr (ScalarType IntegerType) = Inr ''int''"
| "toCStr (ScalarType IndexType) = Inr ''int''"
| "toCStr _ = Inl UndefinedBehaviour"

subsection \<open>The symbol table\<close>

type_synonym valueNameMap = "val \<Rightarrow> string option"

text \<open>
  \<open>setValueName\<close> returns \<open>false\<close> when the value has a name already and leaves the
  table as it is. On the other path it stores the name and reaches the closing brace with no
  \<open>return\<close> statement, in a function declared to return \<open>bool\<close>: the behaviour is
  undefined. What the program does there depends on the build, as with \<open>NDEBUG\<close>:
  \<open>returnsAtEnd\<close> is a build in which the call comes back to its caller, with no value to
  speak of (\<open>None\<close>), as an unoptimised build does; in any other build the run is lost. Every
  caller drops the result.
\<close>

definition setValueName ::
  "bool \<Rightarrow> val \<Rightarrow> string \<Rightarrow> valueNameMap \<Rightarrow> error + (bool option \<times> valueNameMap)" where
  "setValueName returnsAtEnd v name vm =
     (if vm v \<noteq> None then Inr (Some False, vm)
      else if returnsAtEnd then Inr (None, vm(v \<mapsto> name))
      else Inl UndefinedBehaviour)"

definition getValueName :: "valueNameMap \<Rightarrow> val \<Rightarrow> string" where
  "getValueName vm v = (case vm v of None \<Rightarrow> ''false'' | Some name \<Rightarrow> name)"

definition getKernelName :: "nat \<Rightarrow> string \<times> nat" where
  "getKernelName kernelCounter = (''kernel'' @ to_string (int kernelCounter), kernelCounter + 1)"

definition getArgName :: "nat \<Rightarrow> string \<times> nat" where
  "getArgName varCounter = (''arg'' @ to_string (int varCounter), varCounter + 1)"

subsection \<open>Affine expressions\<close>

datatype AffineExprKind = Add | Mul | Mod | FloorDiv | CeilDiv

datatype AffineExpr =
    AffineDimExpr nat
  | AffineSymbolExpr nat
  | AffineConstantExpr int
  | AffineBinaryOpExpr AffineExprKind AffineExpr AffineExpr

text \<open>
  \<open>CUDAGenerator::codegen(AffineExpr, operands)\<close>. A dimension reads
  \<open>operands[position]\<close>; both branches of the constant case write the same text; an
  expression that is neither (a symbol) fails \<open>assert(binaryExpr)\<close> and, with
  assertions compiled out, goes on through the null handle.
\<close>

fun codegenExpr :: "bool \<Rightarrow> valueNameMap \<Rightarrow> val list \<Rightarrow> AffineExpr \<Rightarrow> error + string" where
  "codegenExpr ndebug vm operands (AffineDimExpr position) =
     (if position < length operands then Inr (getValueName vm (operands ! position))
      else Inl UndefinedBehaviour)"
| "codegenExpr ndebug vm operands (AffineConstantExpr v) =
     (if v \<ge> 10240 then Inr (to_string v @ '''') else Inr (to_string v))"
| "codegenExpr ndebug vm operands (AffineSymbolExpr _) =
     bindE (cassert ndebug False) (\<lambda>_. Inl UndefinedBehaviour)"
| "codegenExpr ndebug vm operands (AffineBinaryOpExpr kind l r) =
     bindE (codegenExpr ndebug vm operands l) (\<lambda>lhs.
     bindE (codegenExpr ndebug vm operands r) (\<lambda>rhs.
       Inr (case kind of
              Add \<Rightarrow> ''('' @ lhs @ '' + '' @ rhs @ '')''
            | CeilDiv \<Rightarrow> ''(('' @ lhs @ '' + '' @ rhs @ '' - 1)'' @ '' / '' @ rhs @ '')''
            | FloorDiv \<Rightarrow> ''('' @ lhs @ '' / '' @ rhs @ '')''
            | Mod \<Rightarrow> ''('' @ lhs @ '' % '' @ rhs @ '')''
            | Mul \<Rightarrow> ''('' @ lhs @ '' * '' @ rhs @ '')'')))"

subsection \<open>Operations\<close>

datatype CmpFPredicate = OEQ | OGT | OtherPredicate

datatype ShuffleMode = DOWN | IDX | OtherMode

text \<open>
  One constructor for each operation class the generator tests for, and \<open>OtherOp\<close> for
  every other operation. The fields are what the accessors of the class return, results
  first:
  \<^item> constants: result and value (for a float constant, the text \<open>operator<<\<close> writes for
    the converted \<open>float\<close>);
  \<open>MulFOp\<close> to \<open>PowFOp\<close>: result, lhs, rhs; \<open>CmpFOp\<close>: result, predicate, lhs, rhs;
  \<open>TanhOp\<close> to \<open>ExpOp\<close>: result, operand;
  \<^item> \<open>AffineApplyOp\<close>: result, the results of the affine map, the map operands;
  \<^item> \<open>AffineIfOp\<close>: the constraints of the integer set, each with \<open>isEq\<close>, the operands, the
    operations of the then block and of the else block;
  \<^item> \<open>AffineForOp\<close>: induction variable, constant lower and upper bound, step, the string
    attribute \<open>affine.loop\<close> when present, the body;
  \<^item> loads: result, memref, map results, map operands (\<open>LoadOp\<close>: result, memref, indices);
    stores: stored value, memref, map results, map operands;
  \<^item> \<open>ShuffleOp\<close>: result 0, mode, value, offset, width;
  \<^item> \<open>AffineParallelOp\<close>: induction variables and body.
\<close>

datatype op =
    ConstantIndexOp val int
  | ConstantFloatOp val string
  | ConstantIntOp val int
  | MulFOp val val val
  | AddFOp val val val
  | MaxFOp val val val
  | SubFOp val val val
  | DivFOp val val val
  | PowFOp val val val
  | CmpFOp val CmpFPredicate val val
  | TanhOp val val
  | SqrtOp val val
  | LogOp val val
  | BitcastOp val val
  | ExpOp val val
  | AllocOp val
  | AffineApplyOp val "AffineExpr list" "val list"
  | AffineIfOp "(AffineExpr \<times> bool) list" "val list" "op list" "op list"
  | AffineForOp val int int int "string option" "op list"
  | AffineLoadOp val val "AffineExpr list" "val list"
  | LoadOp val val "val list"
  | AffineStoreOp val val "AffineExpr list" "val list"
  | AffineVectorLoadOp val val "AffineExpr list" "val list"
  | AffineVectorStoreOp val val "AffineExpr list" "val list"
  | BarrierOp
  | ShuffleOp val ShuffleMode val val val
  | AffineParallelOp "val list" "op list"
  | AffineYieldOp
  | OtherOp string

text \<open>
  \<open>node.walk<WalkOrder::PreOrder>\<close> visits the operation itself and then, region by
  region, the operations nested in it. \<open>walk\<close> lists them in that order; a callback for
  one operation class sees the members of that class, in this order.
\<close>

fun walk :: "op \<Rightarrow> op list" where
  "walk (AffineIfOp cs operands thenOps elseOps) =
     AffineIfOp cs operands thenOps elseOps # concat (map walk thenOps) @ concat (map walk elseOps)"
| "walk (AffineForOp iv lb ub step attr body) =
     AffineForOp iv lb ub step attr body # concat (map walk body)"
| "walk (AffineParallelOp ivs body) = AffineParallelOp ivs body # concat (map walk body)"
| "walk node = [node]"

subsection \<open>Memory layout\<close>

text \<open>
  The stride loop of the five load and store emitters, the same text in each:
  \<^verbatim>\<open>for (int i = 0; i < shape.size(); i++) {
    if (i == 0) strides.push_back(1);
    else strides.push_back(strides[i - 1] * shape[size - i]); }\<close>
  \<open>strides\<close> is a \<open>std::vector<int>\<close> and the shape holds 64-bit values: each product
  is cut to 32 bits when it is stored.
\<close>

definition computeStrides :: "int list \<Rightarrow> int list" where
  "computeStrides shape =
     foldl (\<lambda>strides i. strides @
              [if i = 0 then 1 else toInt32 (strides ! (i - 1) * shape ! (length shape - i))])
       [] [0 ..< length shape]"

text \<open>
  The loop over the access expressions, \<open>index\<close> counting down from
  \<open>exprs.size() - 1\<close>: \<open>strides[index--]\<close> is read first, then the expression is rendered.
\<close>

fun globalTerms ::
  "bool \<Rightarrow> valueNameMap \<Rightarrow> val list \<Rightarrow> int list \<Rightarrow> int \<Rightarrow> AffineExpr list \<Rightarrow> error + string" where
  "globalTerms ndebug vm operands strides index [] = Inr []"
| "globalTerms ndebug vm operands strides index (expr # exprs) =
     (if index < 0 \<or> index \<ge> int (length strides) then Inl UndefinedBehaviour
      else bindE (codegenExpr ndebug vm operands expr) (\<lambda>e.
           bindE (globalTerms ndebug vm operands strides (index - 1) exprs) (\<lambda>rest.
             Inr (e @ '' * '' @ to_string (strides ! nat index) @ '' + '' @ rest))))"

fun arrayTerms :: "bool \<Rightarrow> valueNameMap \<Rightarrow> val list \<Rightarrow> AffineExpr list \<Rightarrow> error + string" where
  "arrayTerms ndebug vm operands [] = Inr []"
| "arrayTerms ndebug vm operands (expr # exprs) =
     bindE (codegenExpr ndebug vm operands expr) (\<lambda>e.
     bindE (arrayTerms ndebug vm operands exprs) (\<lambda>rest.
       Inr (''['' @ e @ '']'' @ rest)))"

text \<open>
  The subscript written after the name of the memref: a flat offset for global memory,
  one bracket for each expression otherwise. A memref operand whose type is not a
  \<open>MemRefType\<close> gives a null handle.
\<close>

definition codegenSubscript ::
  "bool \<Rightarrow> valueNameMap \<Rightarrow> val \<Rightarrow> AffineExpr list \<Rightarrow> val list \<Rightarrow> error + string" where
  "codegenSubscript ndebug vm memref exprs operands =
     (case getType memref of
        MemRefType elementType shape memorySpace \<Rightarrow>
          if memorySpace = global then
            bindE (globalTerms ndebug vm operands (computeStrides shape)
                     (int (length exprs) - 1) exprs) (\<lambda>terms.
              Inr (''['' @ terms @ ''0]''))
          else arrayTerms ndebug vm operands exprs
      | _ \<Rightarrow> Inl UndefinedBehaviour)"

text \<open>
  \<open>getVectorFetchType\<close>: an element type that is not a float leaves \<open>width = -1\<close>, is
  logged, and the computation goes on.
\<close>

definition getVectorFetchType :: "mlirType \<Rightarrow> error + string" where
  "getVectorFetchType vt =
     (case vt of
        VectorType eleT shape \<Rightarrow>
          (let width = (if eleT = Float16Type then 16 else if eleT = Float32Type then 32
                        else if eleT = Float64Type then 64 else - 1)
           in case shape of
                [] \<Rightarrow> Inl UndefinedBehaviour
              | vecLen # _ \<Rightarrow>
                  (case c_div (vecLen * width) 32 of
                     None \<Rightarrow> Inl UndefinedBehaviour
                   | Some totalFloat \<Rightarrow> Inr (''float'' @ to_string totalFloat)))
      | _ \<Rightarrow> Inl UndefinedBehaviour)"

definition indent :: "int \<Rightarrow> string" where
  "indent curIndent = concat (replicate (nat curIndent) ''  '')"

definition varDeclear :: "valueNameMap \<Rightarrow> val \<Rightarrow> error + string" where
  "varDeclear vm var =
     (case getType var of
        MemRefType elementType dims memorySpace \<Rightarrow>
          bindE (toCStr (ScalarType elementType)) (\<lambda>ty.
            Inr ((if memorySpace = shared then ''__shared__ '' else []) @ ty @
                 (if memorySpace = global then ''*'' @ '' '' @ getValueName vm var
                  else '' '' @ getValueName vm var @
                       concat (map (\<lambda>d. ''['' @ to_string d @ '']'') dims))))
      | _ \<Rightarrow> Inl UndefinedBehaviour)"

subsection \<open>The statement emitters\<close>

text \<open>
  The \<open>dyn_cast\<close> chains of the two containers: which operation classes the body loop of
  \<open>codegen(AffineForOp)\<close> and of \<open>codegen(AffineIfOp)\<close> hands to an emitter. The classes
  are disjoint, so the order of the tests does not matter.
\<close>

fun forBodyHandles :: "op \<Rightarrow> bool" where
  "forBodyHandles (AffineForOp _ _ _ _ _ _) = True"
| "forBodyHandles (AffineIfOp _ _ _ _) = True"
| "forBodyHandles (AffineLoadOp _ _ _ _) = True"
| "forBodyHandles (AffineApplyOp _ _ _) = True"
| "forBodyHandles (LoadOp _ _ _) = True"
| "forBodyHandles (AffineStoreOp _ _ _ _) = True"
| "forBodyHandles (AffineVectorLoadOp _ _ _ _) = True"
| "forBodyHandles (AffineVectorStoreOp _ _ _ _) = True"
| "forBodyHandles (ConstantIndexOp _ _) = True"
| "forBodyHandles (ConstantFloatOp _ _) = True"
| "forBodyHandles (ConstantIntOp _ _) = True"
| "forBodyHandles (MulFOp _ _ _) = True"
| "forBodyHandles (AddFOp _ _ _) = True"
| "forBodyHandles (PowFOp _ _ _) = True"
| "forBodyHandles (CmpFOp _ _ _ _) = True"
| "forBodyHandles (TanhOp _ _) = True"
| "forBodyHandles (SqrtOp _ _) = True"
| "forBodyHandles (LogOp _ _) = True"
| "forBodyHandles (DivFOp _ _ _) = True"
| "forBodyHandles BarrierOp = True"
| "forBodyHandles (ShuffleOp _ _ _ _ _) = True"
| "forBodyHandles (AllocOp _) = True"
| "forBodyHandles (MaxFOp _ _ _) = True"
| "forBodyHandles (SubFOp _ _ _) = True"
| "forBodyHandles (ExpOp _ _) = True"
| "forBodyHandles _ = False"

fun ifBodyHandles :: "op \<Rightarrow> bool" where
  "ifBodyHandles (AffineForOp _ _ _ _ _ _) = True"
| "ifBodyHandles (AffineIfOp _ _ _ _) = True"
| "ifBodyHandles (ConstantIndexOp _ _) = True"
| "ifBodyHandles (ConstantFloatOp _ _) = True"
| "ifBodyHandles (ConstantIntOp _ _) = True"
| "ifBodyHandles (AffineVectorLoadOp _ _ _ _) = True"
| "ifBodyHandles (AffineVectorStoreOp _ _ _ _) = True"
| "ifBodyHandles BarrierOp = True"
| "ifBodyHandles (AffineStoreOp _ _ _ _) = True"
| "ifBodyHandles (AffineLoadOp _ _ _ _) = True"
| "ifBodyHandles (LoadOp _ _ _) = True"
| "ifBodyHandles (MaxFOp _ _ _) = True"
| "ifBodyHandles (MulFOp _ _ _) = True"
| "ifBodyHandles (AddFOp _ _ _) = True"
| "ifBodyHandles (SubFOp _ _ _) = True"
| "ifBodyHandles (DivFOp _ _ _) = True"
| "ifBodyHandles (SqrtOp _ _) = True"
| "ifBodyHandles (ExpOp _ _) = True"
| "ifBodyHandles (ShuffleOp _ _ _ _ _) = True"
| "ifBodyHandles _ = False"

text \<open>
  The last branch of each chain: \<open>assert(yieldOp)\<close>, where \<open>yieldOp\<close> is the operation
  cast to \<open>AffineYieldOp\<close>. Nothing is written for the operation.
\<close>

definition assertYield :: "bool \<Rightarrow> op \<Rightarrow> error + string" where
  "assertYield ndebug operation = bindE (cassert ndebug (operation = AffineYieldOp)) (\<lambda>_. Inr [])"

definition relation :: "bool \<Rightarrow> string" where
  "relation isEq = (if isEq then ''=='' else ''>='')"

fun codegenConstraints ::
  "bool \<Rightarrow> valueNameMap \<Rightarrow> val list \<Rightarrow> (AffineExpr \<times> bool) list \<Rightarrow> error + string" where
  "codegenConstraints ndebug vm operands [] = Inr []"
| "codegenConstraints ndebug vm operands ((expr, isEq) # cs) =
     bindE (codegenExpr ndebug vm operands expr) (\<lambda>e.
     bindE (codegenConstraints ndebug vm operands cs) (\<lambda>rest.
       Inr (e @ '' '' @ relation isEq @ '' 0 && '' @ rest)))"

text \<open>
  \<open>codegen\<close> is the overload set \<open>CUDAGenerator::codegen(SomeOp)\<close> for the operations
  emitted as statements; \<open>curIndent\<close> is the indentation level at the call. The body loops
  of the two containers run one level deeper (\<open>INDENT()\<close>). The classes with no overload
  here are never handed to it by a body loop.
\<close>

fun codegen :: "bool \<Rightarrow> valueNameMap \<Rightarrow> int \<Rightarrow> op \<Rightarrow> error + string"
  and codegenForBody :: "bool \<Rightarrow> valueNameMap \<Rightarrow> int \<Rightarrow> op list \<Rightarrow> error + string"
  and codegenIfBody :: "bool \<Rightarrow> valueNameMap \<Rightarrow> int \<Rightarrow> op list \<Rightarrow> error + string"
where
  "codegen ndebug vm curIndent (AllocOp result) =
     bindE (varDeclear vm result) (\<lambda>decl. Inr (indent curIndent @ decl @ '';\<newline>''))"
| "codegen ndebug vm curIndent BarrierOp = Inr (indent curIndent @ ''__syncthreads();\<newline>'')"
| "codegen ndebug vm curIndent (ShuffleOp result mode value offset width) =
     Inr (indent curIndent @ ''auto '' @ getValueName vm result @ '' = '' @
          (case mode of DOWN \<Rightarrow> '' __shfl_down_sync(0xffffffff, ''
                      | IDX \<Rightarrow> '' __shfl_sync(0xffffffff, ''
                      | OtherMode \<Rightarrow> []) @
          getValueName vm value @ '', '' @ getValueName vm offset @ '', '' @
          getValueName vm width @ '');\<newline>'')"
| "codegen ndebug vm curIndent (AffineApplyOp result exprs operands) =
     bindE (cassert ndebug (length exprs = 1)) (\<lambda>_.
       case exprs of
         [] \<Rightarrow> Inl UndefinedBehaviour
       | expr # _ \<Rightarrow>
           bindE (codegenExpr ndebug vm operands expr) (\<lambda>e.
             Inr (indent curIndent @ ''int '' @ getValueName vm result @ '' = '' @ e @ '';\<newline>'')))"
| "codegen ndebug vm curIndent (ConstantIndexOp result v) =
     Inr (indent curIndent @ ''constexpr int '' @ getValueName vm result @ '' = '' @
          to_string v @ '';\<newline>'')"
| "codegen ndebug vm curIndent (ConstantFloatOp result literal) =
     bindE (toCStr (getType result)) (\<lambda>ty.
       Inr (indent curIndent @ ''constexpr '' @ ty @ '' '' @ getValueName vm result @ '' = '' @
            literal @ '';\<newline>''))"
| "codegen ndebug vm curIndent (ConstantIntOp result v) =
     bindE (toCStr (getType result)) (\<lambda>ty.
       Inr (indent curIndent @ ''constexpr '' @ ty @ '' '' @ getValueName vm result @ '' = '' @
            to_string (toInt32 v) @ '';\<newline>''))"
| "codegen ndebug vm curIndent (MulFOp result lhs rhs) =
     Inr (indent curIndent @ ''auto '' @ getValueName vm result @ '' = '' @
          getValueName vm lhs @ '' * '' @ getValueName vm rhs @ '';\<newline>'')"
| "codegen ndebug vm curIndent (AddFOp result lhs rhs) =
     Inr (indent curIndent @ ''auto '' @ getValueName vm result @ '' = '' @
          getValueName vm lhs @ '' + '' @ getValueName vm rhs @ '';\<newline>'')"
| "codegen ndebug vm curIndent (MaxFOp result lhs rhs) =
     Inr (indent curIndent @ ''auto '' @ getValueName vm result @ '' = max('' @
          getValueName vm lhs @ '' , '' @ getValueName vm rhs @ '');\<newline>'')"
| "codegen ndebug vm curIndent (SubFOp result lhs rhs) =
     Inr (indent curIndent @ ''auto '' @ getValueName vm result @ '' = '' @
          getValueName vm lhs @ '' - '' @ getValueName vm rhs @ '';\<newline>'')"
| "codegen ndebug vm curIndent (DivFOp result lhs rhs) =
     Inr (indent curIndent @ ''auto '' @ getValueName vm result @ '' = '' @
          getValueName vm lhs @ '' / '' @ getValueName vm rhs @ '';\<newline>'')"
| "codegen ndebug vm curIndent (PowFOp result lhs rhs) =
     Inr (indent curIndent @ ''auto '' @ getValueName vm result @ '' = powf('' @
          getValueName vm lhs @ '', '' @ getValueName vm rhs @ '');\<newline>'')"
| "codegen ndebug vm curIndent (TanhOp result operand) =
     Inr (indent curIndent @ ''auto '' @ getValueName vm result @ '' = tanhf('' @
          getValueName vm operand @ '');\<newline>'')"
| "codegen ndebug vm curIndent (SqrtOp result operand) =
     Inr (indent curIndent @ ''auto '' @ getValueName vm result @ '' = sqrtf('' @
          getValueName vm operand @ '');\<newline>'')"
| "codegen ndebug vm curIndent (LogOp result operand) =
     Inr (indent curIndent @ ''auto '' @ getValueName vm result @ '' = logf('' @
          getValueName vm operand @ '');\<newline>'')"
| "codegen ndebug vm curIndent (BitcastOp result operand) =
     bindE (toCStr (getType result)) (\<lambda>ty.
       Inr (indent curIndent @ ''auto '' @ getValueName vm result @ '' = static_cast<'' @ ty @
            ''>('' @ getValueName vm operand @ '');\<newline>''))"
| "codegen ndebug vm curIndent (CmpFOp result predicate lhs rhs) =
     Inr (indent curIndent @
          (case predicate of
             OEQ \<Rightarrow> ''auto '' @ getValueName vm result @ '' = '' @ getValueName vm lhs @
                    '' == '' @ getValueName vm rhs @ '';\<newline>''
           | OGT \<Rightarrow> ''auto '' @ getValueName vm result @ '' = '' @ getValueName vm lhs @
                    '' > '' @ getValueName vm rhs @ '';\<newline>''
           | OtherPredicate \<Rightarrow> []))"
| "codegen ndebug vm curIndent (ExpOp result operand) =
     Inr (indent curIndent @ ''auto '' @ getValueName vm result @ '' = exp('' @
          getValueName vm operand @ '');\<newline>'')"
| "codegen ndebug vm curIndent (AffineIfOp constraints operands thenOps elseOps) =
     bindE (codegenConstraints ndebug vm operands constraints) (\<lambda>cond.
     bindE (codegenIfBody ndebug vm (curIndent + 1) thenOps) (\<lambda>body.
       Inr (indent curIndent @ ''if ('' @ cond @ '' true) {\<newline>'' @ body @
            indent curIndent @ ''}\<newline>'')))"
| "codegen ndebug vm curIndent (AffineLoadOp result memref exprs operands) =
     bindE (codegenSubscript ndebug vm memref exprs operands) (\<lambda>subscript.
       Inr (indent curIndent @ ''auto '' @ getValueName vm result @ '' = '' @
            getValueName vm memref @ subscript @ '';\<newline>''))"
| "codegen ndebug vm curIndent (LoadOp result memref indices) =
     bindE (codegenSubscript ndebug vm memref (map AffineDimExpr [0 ..< length indices]) indices)
       (\<lambda>subscript.
       Inr (indent curIndent @ ''auto '' @ getValueName vm result @ '' = '' @
            getValueName vm memref @ subscript @ '';\<newline>''))"
| "codegen ndebug vm curIndent (AffineStoreOp value memref exprs operands) =
     bindE (codegenSubscript ndebug vm memref exprs operands) (\<lambda>subscript.
       Inr (indent curIndent @ getValueName vm memref @ subscript @ '' = '' @
            getValueName vm value @ '';\<newline>''))"
| "codegen ndebug vm curIndent (AffineVectorLoadOp result memref exprs operands) =
     bindE (getVectorFetchType (getType result)) (\<lambda>vstr.
     bindE (codegenSubscript ndebug vm memref exprs operands) (\<lambda>subscript.
       Inr (indent curIndent @ ''auto '' @ getValueName vm result @ '' = '' @
            ''(reinterpret_cast<'' @ vstr @ ''*>(&('' @ getValueName vm memref @ subscript @
            ''))[0]);\<newline>'')))"
| "codegen ndebug vm curIndent (AffineVectorStoreOp value memref exprs operands) =
     bindE (getVectorFetchType (getType value)) (\<lambda>vstr.
     bindE (codegenSubscript ndebug vm memref exprs operands) (\<lambda>subscript.
       Inr (indent curIndent @ ''(reinterpret_cast<'' @ vstr @ ''*>(&('' @
            getValueName vm memref @ subscript @ ''))[0])'' @ '' = '' @
            getValueName vm value @ '';\<newline>'')))"
| "codegen ndebug vm curIndent (AffineForOp iv lb ub step attr body) =
     bindE (codegenForBody ndebug vm (curIndent + 1) body) (\<lambda>bodyText.
       Inr ((if attr = Some ''unroll'' then indent curIndent @ ''#pragma unroll\<newline>'' else []) @
            indent curIndent @ ''for (int '' @ getValueName vm iv @ '' = '' @ to_string lb @ ''; '' @
            getValueName vm iv @ '' < '' @ to_string ub @ ''; '' @
            getValueName vm iv @ '' += '' @ to_string step @ '') {\<newline>'' @
            bodyText @ indent curIndent @ ''}\<newline>''))"
| "codegen ndebug vm curIndent (AffineParallelOp ivs body) = Inr []"
| "codegen ndebug vm curIndent AffineYieldOp = Inr []"
| "codegen ndebug vm curIndent (OtherOp name) = Inr []"
| "codegenForBody ndebug vm curIndent [] = Inr []"
| "codegenForBody ndebug vm curIndent (operation # ops) =
     bindE (if forBodyHandles operation then codegen ndebug vm curIndent operation
            else assertYield ndebug operation) (\<lambda>t.
     bindE (codegenForBody ndebug vm curIndent ops) (\<lambda>rest. Inr (t @ rest)))"
| "codegenIfBody ndebug vm curIndent [] = Inr []"
| "codegenIfBody ndebug vm curIndent (operation # ops) =
     bindE (if ifBodyHandles operation then codegen ndebug vm curIndent operation
            else assertYield ndebug operation) (\<lambda>t.
     bindE (codegenIfBody ndebug vm curIndent ops) (\<lambda>rest. Inr (t @ rest)))"

subsection \<open>The naming pass: \<open>collectVars\<close>\<close>

text \<open>
  The state \<open>collectVars\<close> works on: the global \<open>valueNameMap\<close> and \<open>varCounter\<close>, and
  its locals \<open>outsidesVars\<close> (a \<open>std::map\<close> from value to \<open>id\<close>, kept here in insertion
  order) and \<open>id\<close>.
\<close>

record collectState =
  cvNames :: valueNameMap
  cvVarCounter :: nat
  outsidesVars :: "(val \<times> nat) list"
  cvId :: nat

primrec forEachE :: "('a \<Rightarrow> 's \<Rightarrow> error + 's) \<Rightarrow> 'a list \<Rightarrow> 's \<Rightarrow> error + 's" where
  "forEachE f [] s = Inr s"
| "forEachE f (x # xs) s = bindE (f x s) (forEachE f xs)"

text \<open>
  \<open>setValueName(result, prefix + std::to_string(counter++) + suffix)\<close>: the counter moves
  on whether the name is stored or not.
\<close>

definition nameResult ::
  "bool \<Rightarrow> string \<Rightarrow> string \<Rightarrow> val \<Rightarrow> nat \<times> collectState \<Rightarrow> error + (nat \<times> collectState)" where
  "nameResult returnsAtEnd prefix suffix result = (\<lambda>(counter, st).
     bindE (setValueName returnsAtEnd result (prefix @ to_string (int counter) @ suffix) (cvNames st))
       (\<lambda>(returned, vm). Inr (counter + 1, st\<lparr>cvNames := vm\<rparr>)))"

text \<open>
  The capture test of the load and store callbacks:
  \<^verbatim>\<open>if (valueNameMap.count(mem) == 0) {
    if (outsidesVars.count(mem) == 0) {
      outsidesVars[mem] = id ++;
      setValueName(mem, getArgName()); } }\<close>
\<close>

definition captureMem :: "bool \<Rightarrow> val \<Rightarrow> collectState \<Rightarrow> error + collectState" where
  "captureMem returnsAtEnd mem st =
     (if cvNames st mem = None then
        (if map_of (outsidesVars st) mem = None then
           bindE (setValueName returnsAtEnd mem (fst (getArgName (cvVarCounter st))) (cvNames st))
             (\<lambda>(returned, vm).
                Inr (st\<lparr>outsidesVars := outsidesVars st @ [(mem, cvId st)],
                        cvId := cvId st + 1,
                        cvNames := vm,
                        cvVarCounter := snd (getArgName (cvVarCounter st))\<rparr>))
         else Inr st)
      else Inr st)"

text \<open>
  One callback: for an operation of the class the walk asks for, the memref the capture
  test is run on (loads and stores only) and the results named after it.
\<close>

type_synonym selector = "op \<Rightarrow> (val option \<times> val list) option"

definition visit ::
  "bool \<Rightarrow> string \<Rightarrow> string \<Rightarrow> val option \<Rightarrow> val list \<Rightarrow> nat \<times> collectState \<Rightarrow>
   error + (nat \<times> collectState)" where
  "visit returnsAtEnd prefix suffix mem results = (\<lambda>(counter, st).
     bindE (case mem of None \<Rightarrow> Inr st | Some m \<Rightarrow> captureMem returnsAtEnd m st) (\<lambda>st1.
       forEachE (nameResult returnsAtEnd prefix suffix) results (counter, st1)))"

definition walkPass ::
  "bool \<Rightarrow> selector \<Rightarrow> string \<Rightarrow> string \<Rightarrow> op \<Rightarrow> nat \<times> collectState \<Rightarrow>
   error + (nat \<times> collectState)" where
  "walkPass returnsAtEnd sel prefix suffix node =
     forEachE (\<lambda>operation. case sel operation of
                              None \<Rightarrow> Inr
                            | Some (mem, results) \<Rightarrow> visit returnsAtEnd prefix suffix mem results)
       (walk node)"

text \<open>A run of walks that share one counter, declared just before the first of them.\<close>

definition walkGroup ::
  "bool \<Rightarrow> string \<times> string \<times> selector list \<Rightarrow> op \<Rightarrow> collectState \<Rightarrow> error + collectState" where
  "walkGroup returnsAtEnd grp node st =
     (case grp of (prefix, suffix, sels) \<Rightarrow>
        bindE (forEachE (\<lambda>sel. walkPass returnsAtEnd sel prefix suffix node) sels (0, st))
          (\<lambda>(counter, st'). Inr st'))"

definition forOps :: selector where
  "forOps operation = (case operation of AffineForOp iv _ _ _ _ _ \<Rightarrow> Some (None, [iv]) | _ \<Rightarrow> None)"

definition applyOps :: selector where
  "applyOps operation = (case operation of AffineApplyOp r _ _ \<Rightarrow> Some (None, [r]) | _ \<Rightarrow> None)"

definition allocOps :: selector where
  "allocOps operation = (case operation of AllocOp r \<Rightarrow> Some (None, [r]) | _ \<Rightarrow> None)"

definition vectorLoadOps :: selector where
  "vectorLoadOps operation =
     (case operation of AffineVectorLoadOp r mem _ _ \<Rightarrow> Some (Some mem, [r]) | _ \<Rightarrow> None)"

definition affineLoadOps :: selector where
  "affineLoadOps operation =
     (case operation of AffineLoadOp r mem _ _ \<Rightarrow> Some (Some mem, [r]) | _ \<Rightarrow> None)"

definition memrefLoadOps :: selector where
  "memrefLoadOps operation = (case operation of LoadOp r mem _ \<Rightarrow> Some (Some mem, [r]) | _ \<Rightarrow> None)"

definition storeOps :: selector where
  "storeOps operation =
     (case operation of AffineStoreOp _ mem _ _ \<Rightarrow> Some (Some mem, []) | _ \<Rightarrow> None)"

definition vectorStoreOps :: selector where
  "vectorStoreOps operation =
     (case operation of AffineVectorStoreOp _ mem _ _ \<Rightarrow> Some (Some mem, []) | _ \<Rightarrow> None)"

definition constantIndexOps :: selector where
  "constantIndexOps operation = (case operation of ConstantIndexOp r _ \<Rightarrow> Some (None, [r]) | _ \<Rightarrow> None)"

definition constantFloatOps :: selector where
  "constantFloatOps operation = (case operation of ConstantFloatOp r _ \<Rightarrow> Some (None, [r]) | _ \<Rightarrow> None)"

definition constantIntOps :: selector where
  "constantIntOps operation = (case operation of ConstantIntOp r _ \<Rightarrow> Some (None, [r]) | _ \<Rightarrow> None)"

definition mulOps :: selector where
  "mulOps operation = (case operation of MulFOp r _ _ \<Rightarrow> Some (None, [r]) | _ \<Rightarrow> None)"

definition addOps :: selector where
  "addOps operation = (case operation of AddFOp r _ _ \<Rightarrow> Some (None, [r]) | _ \<Rightarrow> None)"

definition maxOps :: selector where
  "maxOps operation = (case operation of MaxFOp r _ _ \<Rightarrow> Some (None, [r]) | _ \<Rightarrow> None)"

definition subOps :: selector where
  "subOps operation = (case operation of SubFOp r _ _ \<Rightarrow> Some (None, [r]) | _ \<Rightarrow> None)"

definition divOps :: selector where
  "divOps operation = (case operation of DivFOp r _ _ \<Rightarrow> Some (None, [r]) | _ \<Rightarrow> None)"

definition expOps :: selector where
  "expOps operation = (case operation of ExpOp r _ \<Rightarrow> Some (None, [r]) | _ \<Rightarrow> None)"

definition powOps :: selector where
  "powOps operation = (case operation of PowFOp r _ _ \<Rightarrow> Some (None, [r]) | _ \<Rightarrow> None)"

definition cmpOps :: selector where
  "cmpOps operation = (case operation of CmpFOp r _ _ _ \<Rightarrow> Some (None, [r]) | _ \<Rightarrow> None)"

definition tanhOps :: selector where
  "tanhOps operation = (case operation of TanhOp r _ \<Rightarrow> Some (None, [r]) | _ \<Rightarrow> None)"

definition sqrtOps :: selector where
  "sqrtOps operation = (case operation of SqrtOp r _ \<Rightarrow> Some (None, [r]) | _ \<Rightarrow> None)"

definition logOps :: selector where
  "logOps operation = (case operation of LogOp r _ \<Rightarrow> Some (None, [r]) | _ \<Rightarrow> None)"

definition bitcastOps :: selector where
  "bitcastOps operation = (case operation of BitcastOp r _ \<Rightarrow> Some (None, [r]) | _ \<Rightarrow> None)"

definition shuffleOps :: selector where
  "shuffleOps operation = (case operation of ShuffleOp r _ _ _ _ \<Rightarrow> Some (None, [r]) | _ \<Rightarrow> None)"

text \<open>
  The walks of \<open>collectVars\<close> after the one over the parallel operations, in the order of
  the source, grouped by the counter they share. The walks that come before the loads and
  stores are \<open>namingGroups\<close>; the walks over loads and stores are \<open>scanGroups\<close>.
\<close>

definition namingGroups :: "(string \<times> string \<times> selector list) list" where
  "namingGroups =
     [(''iter'', [], [forOps]),
      (''expr'', [], [applyOps]),
      (''array'', [], [allocOps])]"

definition scanGroups :: "(string \<times> string \<times> selector list) list" where
  "scanGroups =
     [(''vec'', [], [vectorLoadOps]),
      (''R'', [], [affineLoadOps, memrefLoadOps]),
      ([], [], [storeOps, vectorStoreOps])]"

definition resultGroups :: "(string \<times> string \<times> selector list) list" where
  "resultGroups =
     [(''const'', ''th'', [constantIndexOps, constantFloatOps, constantIntOps]),
      (''temp'', [],
       [mulOps, addOps, maxOps, subOps, divOps, expOps, powOps, cmpOps, tanhOps, sqrtOps,
        logOps, bitcastOps, shuffleOps])]"

definition int3str :: "string list" where
  "int3str = [''x'', ''y'', ''z'']"

text \<open>
  \<^verbatim>\<open>for (int i = 0; i < operands.size(); i+= 1)
    setValueName(operands[i], prefix + int3str[operands.size() - i - 1]);\<close>
  \<open>int3str\<close> has three entries; an index past them is out of range.
\<close>

definition nameIVs :: "bool \<Rightarrow> string \<Rightarrow> val list \<Rightarrow> valueNameMap \<Rightarrow> error + valueNameMap" where
  "nameIVs returnsAtEnd prefix operands =
     forEachE (\<lambda>i vm.
         if length operands - i - 1 < length int3str then
           bindE (setValueName returnsAtEnd (operands ! i)
                    (prefix @ int3str ! (length operands - i - 1)) vm)
             (\<lambda>(returned, vm'). Inr vm')
         else Inl UndefinedBehaviour)
       [0 ..< length operands]"

definition parallelWalk :: "bool \<Rightarrow> op \<Rightarrow> valueNameMap \<Rightarrow> error + valueNameMap" where
  "parallelWalk returnsAtEnd node =
     forEachE (\<lambda>parallelOp vm.
         case parallelOp of
           AffineParallelOp operands body \<Rightarrow>
             nameIVs returnsAtEnd (if parallelOp = node then ''blockIdx.'' else ''threadIdx.'')
               operands vm
         | _ \<Rightarrow> Inr vm)
       (walk node)"

text \<open>
  The end of \<open>collectVars\<close>: the keys of \<open>outsidesVars\<close> are read in the order of the map,
  which \<open>CompareValue\<close> makes the order of the addresses \<open>getAsOpaquePointer\<close> returns, and
  sorted by their \<open>id\<close>. \<open>outsidesVars[a]\<close> on a missing key would give 0.
\<close>

definition idOf :: "(val \<times> nat) list \<Rightarrow> val \<Rightarrow> nat" where
  "idOf outs v = (case map_of outs v of None \<Rightarrow> 0 | Some i \<Rightarrow> i)"

definition sortedResult :: "(val \<Rightarrow> nat) \<Rightarrow> (val \<times> nat) list \<Rightarrow> val list" where
  "sortedResult getAsOpaquePointer outs =
     sort_key (idOf outs) (sort_key getAsOpaquePointer (map fst outs))"

definition beforeScan :: "bool \<Rightarrow> op \<Rightarrow> collectState \<Rightarrow> error + collectState" where
  "beforeScan returnsAtEnd node = forEachE (\<lambda>grp. walkGroup returnsAtEnd grp node) namingGroups"

definition collectVars ::
  "bool \<Rightarrow> (val \<Rightarrow> nat) \<Rightarrow> op \<Rightarrow> valueNameMap \<times> nat \<Rightarrow> error + (val list \<times> valueNameMap \<times> nat)" where
  "collectVars returnsAtEnd getAsOpaquePointer node = (\<lambda>(vm, vc).
     bindE (parallelWalk returnsAtEnd node vm) (\<lambda>vm1.
     bindE (beforeScan returnsAtEnd node
              \<lparr>cvNames = vm1, cvVarCounter = vc, outsidesVars = [], cvId = 0\<rparr>) (\<lambda>st1.
     bindE (forEachE (\<lambda>grp. walkGroup returnsAtEnd grp node) scanGroups st1) (\<lambda>st2.
     bindE (forEachE (\<lambda>grp. walkGroup returnsAtEnd grp node) resultGroups st2) (\<lambda>st3.
       Inr (sortedResult getAsOpaquePointer (outsidesVars st3), cvNames st3, cvVarCounter st3))))))"

subsection \<open>Kernels, functions and the module\<close>

record globals =
  kernelCounter :: nat
  varCounter :: nat
  source :: string
  valueNameMap :: valueNameMap

fun kernelBodyHandles :: "op \<Rightarrow> bool" where
  "kernelBodyHandles (AllocOp _) = True"
| "kernelBodyHandles (ConstantIndexOp _ _) = True"
| "kernelBodyHandles (ConstantIntOp _ _) = True"
| "kernelBodyHandles (AffineStoreOp _ _ _ _) = True"
| "kernelBodyHandles (ConstantFloatOp _ _) = True"
| "kernelBodyHandles (AffineApplyOp _ _ _) = True"
| "kernelBodyHandles _ = False"

fun innerBodyHandles :: "op \<Rightarrow> bool" where
  "innerBodyHandles (ConstantIndexOp _ _) = True"
| "innerBodyHandles (ConstantIntOp _ _) = True"
| "innerBodyHandles (AllocOp _) = True"
| "innerBodyHandles (AffineApplyOp _ _ _) = True"
| "innerBodyHandles (AffineForOp _ _ _ _ _ _) = True"
| "innerBodyHandles (AffineIfOp _ _ _ _) = True"
| "innerBodyHandles (AffineLoadOp _ _ _ _) = True"
| "innerBodyHandles (LoadOp _ _ _) = True"
| "innerBodyHandles (AffineStoreOp _ _ _ _) = True"
| "innerBodyHandles (AffineVectorLoadOp _ _ _ _) = True"
| "innerBodyHandles (AffineVectorStoreOp _ _ _ _) = True"
| "innerBodyHandles (ConstantFloatOp _ _) = True"
| "innerBodyHandles (MulFOp _ _ _) = True"
| "innerBodyHandles (AddFOp _ _ _) = True"
| "innerBodyHandles (DivFOp _ _ _) = True"
| "innerBodyHandles (SubFOp _ _ _) = True"
| "innerBodyHandles (PowFOp _ _ _) = True"
| "innerBodyHandles (CmpFOp _ _ _ _) = True"
| "innerBodyHandles (TanhOp _ _) = True"
| "innerBodyHandles (SqrtOp _ _) = True"
| "innerBodyHandles (LogOp _ _) = True"
| "innerBodyHandles (BitcastOp _ _) = True"
| "innerBodyHandles BarrierOp = True"
| "innerBodyHandles _ = False"

text \<open>
  The loop over the operations of a nested parallel operation, written in place in the
  kernel body, at the indentation of the kernel body.
\<close>

fun codegenInnerBody :: "bool \<Rightarrow> valueNameMap \<Rightarrow> int \<Rightarrow> op list \<Rightarrow> error + string" where
  "codegenInnerBody ndebug vm curIndent [] = Inr []"
| "codegenInnerBody ndebug vm curIndent (innerOp # innerOps) =
     bindE (if innerBodyHandles innerOp then codegen ndebug vm curIndent innerOp
            else assertYield ndebug innerOp) (\<lambda>t.
     bindE (codegenInnerBody ndebug vm curIndent innerOps) (\<lambda>rest. Inr (t @ rest)))"

fun codegenKernelBody :: "bool \<Rightarrow> valueNameMap \<Rightarrow> int \<Rightarrow> op list \<Rightarrow> error + string" where
  "codegenKernelBody ndebug vm curIndent [] = Inr []"
| "codegenKernelBody ndebug vm curIndent (operation # ops) =
     bindE (if kernelBodyHandles operation then codegen ndebug vm curIndent operation
            else (case operation of
                    AffineParallelOp ivs innerOps \<Rightarrow> codegenInnerBody ndebug vm curIndent innerOps
                  | _ \<Rightarrow> assertYield ndebug operation)) (\<lambda>t.
     bindE (codegenKernelBody ndebug vm curIndent ops) (\<lambda>rest. Inr (t @ rest)))"

definition isParallelOp :: "op \<Rightarrow> bool" where
  "isParallelOp operation = (case operation of AffineParallelOp _ _ \<Rightarrow> True | _ \<Rightarrow> False)"

text \<open>
  The parameter list of the prototype: \<open>varDeclear(outsideVars[0])\<close>, then each further
  variable after a comma. Reading element 0 of an empty vector is out of range.
\<close>

fun codegenParams :: "valueNameMap \<Rightarrow> val list \<Rightarrow> error + string" where
  "codegenParams vm [] = Inr []"
| "codegenParams vm (var # vars) =
     bindE (varDeclear vm var) (\<lambda>decl.
     bindE (codegenParams vm vars) (\<lambda>rest. Inr ('', '' @ decl @ rest)))"

definition codegenPrototypeParams :: "valueNameMap \<Rightarrow> val list \<Rightarrow> error + string" where
  "codegenPrototypeParams vm outsideVars =
     (case outsideVars of
        [] \<Rightarrow> Inl UndefinedBehaviour
      | var # vars \<Rightarrow>
          bindE (varDeclear vm var) (\<lambda>decl.
          bindE (codegenParams vm vars) (\<lambda>rest. Inr (decl @ rest))))"

definition dimsText :: "int list \<Rightarrow> string" where
  "dimsText dims = concat (map (\<lambda>dim. to_string dim @ '', '') dims)"

text \<open>
  \<open>CUDAGenerator::codegen(AffineParallelOp)\<close>: one kernel. \<open>getParallelNumber\<close> stands for
  \<open>Analyzer::getParallelNumber\<close>, which is not among the sources; \<open>blockDims\<close> is its value
  at the last parallel operation of the walk. The function returns the globals with the
  kernel's text appended to \<open>source\<close>.
\<close>

definition codegenKernel ::
  "bool \<Rightarrow> bool \<Rightarrow> (val \<Rightarrow> nat) \<Rightarrow> (op \<Rightarrow> int list) \<Rightarrow> int \<Rightarrow> op \<Rightarrow> globals \<Rightarrow> error + globals" where
  "codegenKernel returnsAtEnd ndebug getAsOpaquePointer getParallelNumber curIndent node g =
     bindE (collectVars returnsAtEnd getAsOpaquePointer node (valueNameMap g, varCounter g))
       (\<lambda>(outsideVars, vm, vc).
     bindE (cassert ndebug (length outsideVars \<noteq> 0)) (\<lambda>_.
       let gridDims = getParallelNumber node;
           blockDims = getParallelNumber (last (filter isParallelOp (walk node)));
           kernelName = fst (getKernelName (kernelCounter g))
       in
     bindE (codegenPrototypeParams vm outsideVars) (\<lambda>params.
     bindE (codegenKernelBody ndebug vm (curIndent + 1)
              (case node of AffineParallelOp ivs body \<Rightarrow> body | _ \<Rightarrow> [])) (\<lambda>body.
       Inr (g\<lparr>kernelCounter := snd (getKernelName (kernelCounter g)),
              varCounter := vc,
              valueNameMap := vm,
              source := source g @
                indent curIndent @ ''// grid dims:('' @ dimsText gridDims @ '')'' @
                '', block dims:('' @ dimsText blockDims @ '')\<newline>'' @
                indent curIndent @ ''__global__ void '' @ kernelName @ ''('' @ params @
                '') {\<newline>'' @ body @ indent curIndent @ ''}\<newline>''\<rparr>)))))"

text \<open>
  \<open>codegen(func::FuncOp)\<close>: the parallel operations among the top-level operations of
  the function, in order. A function is the list of its top-level operations, a module the
  list of its functions.
\<close>

definition codegenFunc ::
  "bool \<Rightarrow> bool \<Rightarrow> (val \<Rightarrow> nat) \<Rightarrow> (op \<Rightarrow> int list) \<Rightarrow> int \<Rightarrow> op list \<Rightarrow> globals \<Rightarrow> error + globals" where
  "codegenFunc returnsAtEnd ndebug getAsOpaquePointer getParallelNumber curIndent kernels =
     forEachE (\<lambda>kernel g.
         if isParallelOp kernel
         then codegenKernel returnsAtEnd ndebug getAsOpaquePointer getParallelNumber curIndent kernel g
         else Inr g)
       kernels"

definition codegenModule ::
  "bool \<Rightarrow> bool \<Rightarrow> (val \<Rightarrow> nat) \<Rightarrow> (op \<Rightarrow> int list) \<Rightarrow> op list list \<Rightarrow> globals \<Rightarrow> error + globals" where
  "codegenModule returnsAtEnd ndebug getAsOpaquePointer getParallelNumber funcs =
     forEachE (codegenFunc returnsAtEnd ndebug getAsOpaquePointer getParallelNumber (- 1 + 1)) funcs"

text \<open>
  \<open>CUDAGen\<close>, the public entry: the stream is emptied, the include line written, and the
  constructor of \<open>CUDAGenerator\<close> sets both counters to 0 and clears the name table.
\<close>

definition CUDAGen ::
  "bool \<Rightarrow> bool \<Rightarrow> (val \<Rightarrow> nat) \<Rightarrow> (op \<Rightarrow> int list) \<Rightarrow> op list list \<Rightarrow> globals \<Rightarrow>
   error + (string \<times> globals)" where
  "CUDAGen returnsAtEnd ndebug getAsOpaquePointer getParallelNumber funcs g =
     (let g1 = g\<lparr>source := []\<rparr>;
          g2 = g1\<lparr>source := source g1 @ ''#include '' @ [CHR 0x22] @ ''cuda_runtime.h'' @
                                [CHR 0x22] @ ''\<newline>''\<rparr>;
          g3 = g2\<lparr>kernelCounter := 0, varCounter := 0, valueNameMap := Map.empty\<rparr>
      in bindE (codegenModule returnsAtEnd ndebug getAsOpaquePointer getParallelNumber funcs g3)
           (\<lambda>g4. Inr (source g4, g4)))"

subsection \<open>Definitions that follow the spec\<close>

text \<open>
  The strides as the spec words them, for comparison with \<open>computeStrides\<close>:
  \<open>stride[n-1] = 1\<close> and \<open>stride[k] = stride[k+1] * s[k+1]\<close>, listed outermost first.
\<close>

fun rowMajorStrides :: "int list \<Rightarrow> int list" where
  "rowMajorStrides [] = []"
| "rowMajorStrides [s] = [1]"
| "rowMajorStrides (s # t # ss) = (hd (rowMajorStrides (t # ss)) * t) # rowMajorStrides (t # ss)"

text \<open>
  The capture order as the spec words it. An event is one visit of a load or store by the
  scan: its memref and the results named after it. A memref is captured when it has no name
  at the moment it is scanned; it then gets one, and so do the results. \<open>scanOrder\<close> lists
  the events in the order of the five walks of the source: vector loads, affine loads, plain
  loads, affine stores, vector stores, each walk in pre-order. \<open>namedFirst\<close> lists the values
  named by the walks that come before: the induction variables of the parallel operations
  (\<open>parallelIVs\<close>) and of the loops, and the results of the apply and alloc operations.
\<close>

definition hasName :: "valueNameMap \<Rightarrow> val \<Rightarrow> bool" where
  "hasName vm v = (vm v \<noteq> None)"

fun firstEncounter :: "(val \<Rightarrow> bool) \<Rightarrow> (val option \<times> val list) list \<Rightarrow> val list" where
  "firstEncounter named [] = []"
| "firstEncounter named ((mem, results) # events) =
     (case mem of None \<Rightarrow> [] | Some m \<Rightarrow> if named m then [] else [m]) @
     firstEncounter (\<lambda>v. named v \<or> Some v = mem \<or> v \<in> set results) events"

definition scanOrder :: "op \<Rightarrow> (val option \<times> val list) list" where
  "scanOrder node =
     List.map_filter vectorLoadOps (walk node) @
     List.map_filter affineLoadOps (walk node) @
     List.map_filter memrefLoadOps (walk node) @
     List.map_filter storeOps (walk node) @
     List.map_filter vectorStoreOps (walk node)"

definition getIVs :: "op \<Rightarrow> val list" where
  "getIVs operation = (case operation of AffineParallelOp ivs _ \<Rightarrow> ivs | _ \<Rightarrow> [])"

definition parallelIVs :: "op \<Rightarrow> val list" where
  "parallelIVs node = concat (map getIVs (walk node))"

definition namedFirstOf :: "op \<Rightarrow> val list" where
  "namedFirstOf operation =
     (case operation of
        AffineParallelOp ivs _ \<Rightarrow> ivs
      | AffineForOp iv _ _ _ _ _ \<Rightarrow> [iv]
      | AffineApplyOp r _ _ \<Rightarrow> [r]
      | AllocOp r \<Rightarrow> [r]
      | _ \<Rightarrow> [])"

definition namedFirst :: "op \<Rightarrow> val list" where
  "namedFirst node = concat (map namedFirstOf (walk node))"

text \<open>
  The scan as the claim about the capture order words it: three categories, vector loads,
  then scalar loads, then stores, each category visited in one pre-order walk.
\<close>

definition scalarLoadOps :: selector where
  "scalarLoadOps operation =
     (case operation of
        AffineLoadOp r mem _ _ \<Rightarrow> Some (Some mem, [r])
      | LoadOp r mem _ \<Rightarrow> Some (Some mem, [r])
      | _ \<Rightarrow> None)"

definition anyStoreOps :: selector where
  "anyStoreOps operation =
     (case operation of
        AffineStoreOp _ mem _ _ \<Rightarrow> Some (Some mem, [])
      | AffineVectorStoreOp _ mem _ _ \<Rightarrow> Some (Some mem, [])
      | _ \<Rightarrow> None)"

definition claimedScanOrder :: "op \<Rightarrow> (val option \<times> val list) list" where
  "claimedScanOrder node =
     List.map_filter vectorLoadOps (walk node) @
     List.map_filter scalarLoadOps (walk node) @
     List.map_filter anyStoreOps (walk node)"

text \<open>
  For the example of the claim about the capture order: a memref is vector-loaded, or
  scalar-loaded, when the kernel has a load of that kind from it; it is unnamed at the scan
  when it has no name at the start, is not named by the walks that come before the scan and
  is not the result of a load of the kernel. \<open>precedes x y zs\<close>: \<open>y\<close> occurs in \<open>zs\<close>, and \<open>x\<close>
  occurs before its first occurrence.
\<close>

definition vectorLoaded :: "op \<Rightarrow> val \<Rightarrow> bool" where
  "vectorLoaded node m = (Some m \<in> set (map fst (List.map_filter vectorLoadOps (walk node))))"

definition scalarLoaded :: "op \<Rightarrow> val \<Rightarrow> bool" where
  "scalarLoaded node m = (Some m \<in> set (map fst (List.map_filter scalarLoadOps (walk node))))"

definition unnamedAtScan :: "valueNameMap \<Rightarrow> op \<Rightarrow> val \<Rightarrow> bool" where
  "unnamedAtScan vm node m =
     (vm m = None \<and> m \<notin> set (namedFirst node) \<and> m \<notin> set (concat (map snd (scanOrder node))))"

definition precedes :: "'a \<Rightarrow> 'a \<Rightarrow> 'a list \<Rightarrow> bool" where
  "precedes x y zs = (x \<in> set (takeWhile (\<lambda>z. z \<noteq> y) zs) \<and> y \<in> set zs)"

text \<open>
  The events of the walks of a group, the values they touch, and the invariant of the
  naming pass: every captured value has a name, the ids are \<open>0, 1, ...\<close> in the order of
  capture, and no value is captured twice.
\<close>

definition selVals :: "selector \<Rightarrow> op \<Rightarrow> val set" where
  "selVals sel operation =
     (case sel operation of None \<Rightarrow> {} | Some e \<Rightarrow> set_option (fst e) \<union> set (snd e))"

definition selsEvents :: "op \<Rightarrow> selector list \<Rightarrow> (val option \<times> val list) list" where
  "selsEvents node sels = concat (map (\<lambda>sel. List.map_filter sel (walk node)) sels)"

definition groupsEvents ::
  "op \<Rightarrow> (string \<times> string \<times> selector list) list \<Rightarrow> (val option \<times> val list) list" where
  "groupsEvents node grps = concat (map (\<lambda>grp. selsEvents node (snd (snd grp))) grps)"


definition eventVals :: "(val option \<times> val list) list \<Rightarrow> val set" where
  "eventVals events = (\<Union>e \<in> set events. set_option (fst e) \<union> set (snd e))"

definition cvInv :: "collectState \<Rightarrow> bool" where
  "cvInv st = (fst ` set (outsidesVars st) \<subseteq> dom (cvNames st)
             \<and> map snd (outsidesVars st) = [0 ..< cvId st]
             \<and> distinct (map fst (outsidesVars st)))"

subsection \<open>The naming pass when every call returns\<close>

text \<open>
  For the proofs: what each step of \<open>collectVars\<close> leaves behind when it returns.
  \<open>storeName\<close> is the table after a call of \<open>setValueName\<close> that returns, and the functions
  below are the steps of the pass with \<open>storeName\<close> in place of the call. The lemmas
  \<open>collectVars_returned\<close> and \<open>collectVars_returnsAtEnd\<close> relate them to the pass itself.
\<close>

definition storeName :: "val \<Rightarrow> string \<Rightarrow> valueNameMap \<Rightarrow> valueNameMap" where
  "storeName v name vm = (if vm v \<noteq> None then vm else vm(v \<mapsto> name))"

definition nameResultRet :: "string \<Rightarrow> string \<Rightarrow> val \<Rightarrow> nat \<times> collectState \<Rightarrow> nat \<times> collectState" where
  "nameResultRet prefix suffix result = (\<lambda>(counter, st).
     (counter + 1,
      st\<lparr>cvNames := storeName result (prefix @ to_string (int counter) @ suffix) (cvNames st)\<rparr>))"

definition captureMemRet :: "val \<Rightarrow> collectState \<Rightarrow> collectState" where
  "captureMemRet mem st =
     (if cvNames st mem = None then
        (if map_of (outsidesVars st) mem = None then
           st\<lparr>outsidesVars := outsidesVars st @ [(mem, cvId st)],
              cvId := cvId st + 1,
              cvNames := storeName mem (fst (getArgName (cvVarCounter st))) (cvNames st),
              cvVarCounter := snd (getArgName (cvVarCounter st))\<rparr>
         else st)
      else st)"

definition visitRet ::
  "string \<Rightarrow> string \<Rightarrow> val option \<Rightarrow> val list \<Rightarrow> nat \<times> collectState \<Rightarrow> nat \<times> collectState" where
  "visitRet prefix suffix mem results = (\<lambda>(counter, st).
     fold (nameResultRet prefix suffix) results
       (counter, case mem of None \<Rightarrow> st | Some m \<Rightarrow> captureMemRet m st))"

definition walkPassRet ::
  "selector \<Rightarrow> string \<Rightarrow> string \<Rightarrow> op \<Rightarrow> nat \<times> collectState \<Rightarrow> nat \<times> collectState" where
  "walkPassRet sel prefix suffix node =
     fold (\<lambda>operation. case sel operation of
                          None \<Rightarrow> id
                        | Some (mem, results) \<Rightarrow> visitRet prefix suffix mem results)
       (walk node)"

definition walkGroupRet :: "string \<times> string \<times> selector list \<Rightarrow> op \<Rightarrow> collectState \<Rightarrow> collectState" where
  "walkGroupRet grp node st =
     (case grp of (prefix, suffix, sels) \<Rightarrow>
        snd (fold (\<lambda>sel. walkPassRet sel prefix suffix node) sels (0, st)))"

definition nameIVsRet :: "string \<Rightarrow> val list \<Rightarrow> valueNameMap \<Rightarrow> error + valueNameMap" where
  "nameIVsRet prefix operands =
     forEachE (\<lambda>i vm.
         if length operands - i - 1 < length int3str then
           Inr (storeName (operands ! i) (prefix @ int3str ! (length operands - i - 1)) vm)
         else Inl UndefinedBehaviour)
       [0 ..< length operands]"

definition parallelWalkRet :: "op \<Rightarrow> valueNameMap \<Rightarrow> error + valueNameMap" where
  "parallelWalkRet node =
     forEachE (\<lambda>parallelOp vm.
         case parallelOp of
           AffineParallelOp operands body \<Rightarrow>
             nameIVsRet (if parallelOp = node then ''blockIdx.'' else ''threadIdx.'') operands vm
         | _ \<Rightarrow> Inr vm)
       (walk node)"

definition beforeScanRet :: "op \<Rightarrow> collectState \<Rightarrow> collectState" where
  "beforeScanRet node st = fold (\<lambda>grp. walkGroupRet grp node) namingGroups st"

definition collectVarsRet ::
  "(val \<Rightarrow> nat) \<Rightarrow> op \<Rightarrow> valueNameMap \<times> nat \<Rightarrow> error + (val list \<times> valueNameMap \<times> nat)" where
  "collectVarsRet getAsOpaquePointer node = (\<lambda>(vm, vc).
     bindE (parallelWalkRet node vm) (\<lambda>vm1.
       let st0 = \<lparr>cvNames = vm1, cvVarCounter = vc, outsidesVars = [], cvId = 0\<rparr>;
           st1 = beforeScanRet node st0;
           st2 = fold (\<lambda>grp. walkGroupRet grp node) scanGroups st1;
           st3 = fold (\<lambda>grp. walkGroupRet grp node) resultGroups st2
       in Inr (sortedResult getAsOpaquePointer (outsidesVars st3), cvNames st3, cvVarCounter st3)))"

section \<open>Verification\<close>

subsection \<open>Basic facts\<close>

lemma bindE_simps [simp]: "bindE (Inr x) f = f x" "bindE (Inl e) f = Inl e"
  by (simp_all add: bindE_def)

subsection \<open>Ceiling division (C3)\<close>

lemma ceil_as_div:
  fixes a b :: int
  assumes "0 < b"
  shows "\<lceil>real_of_int a / real_of_int b\<rceil> = (a + b - 1) div b"
proof -
  define x where "x = a + b - 1"
  define z where "z = x div b"
  have m: "0 \<le> x mod b" "x mod b < b" using assms by simp_all
  have e: "x = b * z + x mod b" by (simp add: z_def)
  have lo: "b * (z - 1) < a" and hi: "a \<le> b * z"
    using m e x_def by (simp_all add: algebra_simps)
  have rb: "0 < real_of_int b" using assms by simp
  have "real_of_int (b * (z - 1)) < real_of_int a" using lo by (simp only: of_int_less_iff)
  then have "(real_of_int z - 1) * real_of_int b < real_of_int a" by (simp add: mult.commute)
  then have "real_of_int z - 1 < real_of_int a / real_of_int b"
    using rb by (simp only: pos_less_divide_eq)
  moreover have "real_of_int a \<le> real_of_int (b * z)" using hi by (simp only: of_int_le_iff)
  then have "real_of_int a \<le> real_of_int z * real_of_int b" by (simp add: mult.commute)
  then have "real_of_int a / real_of_int b \<le> real_of_int z"
    using rb by (simp only: pos_divide_le_eq)
  ultimately have "\<lceil>real_of_int a / real_of_int b\<rceil> = z"
    by (rule ceiling_unique)
  then show ?thesis by (simp add: z_def x_def)
qed

lemma c_div_nonneg:
  "0 \<le> x \<Longrightarrow> 0 < b \<Longrightarrow> c_div x b = Some (x div b)"
  by (auto simp: c_div_def sgn_if)

lemma toInt32_fits: "fitsInt32 x \<Longrightarrow> toInt32 x = x"
  by (simp add: toInt32_def fitsInt32_def)

lemma ceilDivValue_in_range:
  assumes "0 \<le> a" and "0 < b" and "fitsInt32 (a + b)"
  shows "ceilDivValue a b = Some ((a + b - 1) div b)"
proof -
  have s: "toInt32 (a + b) = a + b" using assms(3) by (rule toInt32_fits)
  have "fitsInt32 (a + b - 1)" using assms by (simp add: fitsInt32_def)
  then have d: "toInt32 (a + b - 1) = a + b - 1" by (rule toInt32_fits)
  have "0 \<le> a + b - 1" using assms(1,2) by linarith
  then show ?thesis using assms(2) by (simp add: ceilDivValue_def s d c_div_nonneg)
qed

text \<open>
  C3, as amended. A \<open>CeilDiv\<close> expression is written as \<open>((L + R - 1) / R)\<close>, where \<open>L\<close> and
  \<open>R\<close> are the texts of its operands; and for every integer \<open>a \<ge> 0\<close> and \<open>b > 0\<close> whose sum
  fits the \<open>int\<close> of the target, the value of \<open>(a + b - 1) / b\<close> computed in \<open>int\<close> with the
  truncating division of C is the ceiling of \<open>a / b\<close>.
\<close>

theorem ceilDiv_render_and_value:
  assumes "codegenExpr ndebug vm operands l = Inr L"
    and "codegenExpr ndebug vm operands r = Inr R"
    and "0 \<le> a" and "0 < b" and "fitsInt32 (a + b)"
  shows "codegenExpr ndebug vm operands (AffineBinaryOpExpr CeilDiv l r)
           = Inr (''(('' @ L @ '' + '' @ R @ '' - 1) / '' @ R @ '')'')
         \<and> ceilDivValue a b = Some \<lceil>real_of_int a / real_of_int b\<rceil>"
proof
  show "codegenExpr ndebug vm operands (AffineBinaryOpExpr CeilDiv l r)
           = Inr (''(('' @ L @ '' + '' @ R @ '' - 1) / '' @ R @ '')'')"
    using assms(1,2) by simp
  show "ceilDivValue a b = Some \<lceil>real_of_int a / real_of_int b\<rceil>"
    using ceilDivValue_in_range [OF assms(3,4,5)] assms(4) by (simp add: ceil_as_div)
qed

theorem ceilDiv_witness:
  "codegenExpr False [Value 1 (ScalarType IndexType) \<mapsto> ''n''] [Value 1 (ScalarType IndexType)]
      (AffineBinaryOpExpr CeilDiv (AffineDimExpr 0) (AffineConstantExpr 4))
     = Inr ''((n + 4 - 1) / 4)''
   \<and> ceilDivValue 7 4 = Some \<lceil>real_of_int 7 / real_of_int 4\<rceil>
   \<and> ceilDivValue 7 4 = Some 2"
proof -
  let ?v = "Value 1 (ScalarType IndexType)"
  have l: "codegenExpr False [?v \<mapsto> ''n''] [?v] (AffineDimExpr 0) = Inr ''n''"
    by (simp add: getValueName_def)
  have r: "codegenExpr False [?v \<mapsto> ''n''] [?v] (AffineConstantExpr 4) = Inr ''4''"
    by code_simp
  have f: "fitsInt32 (7 + 4)" by (simp add: fitsInt32_def)
  have v: "ceilDivValue 7 4 = Some 2" by (simp add: ceilDivValue_def toInt32_def c_div_def)
  show ?thesis
    using ceilDiv_render_and_value [OF l r _ _ f] v by simp
qed

text \<open>
  With the largest \<open>int\<close> as the left operand and 2 as the right one, the sum does not fit:
  the expression is computed as \<open>-1073741824\<close>, and the ceiling of the quotient is
  \<open>1073741824\<close>.
\<close>

theorem ceilDiv_counterexample:
  "fitsInt32 2147483647 \<and> fitsInt32 2
   \<and> ceilDivValue 2147483647 2 = Some (- 1073741824)
   \<and> \<lceil>real_of_int 2147483647 / real_of_int 2\<rceil> = 1073741824"
  by (simp add: fitsInt32_def ceilDivValue_def toInt32_def c_div_def)

lemma bindE_Inr [simp]: "bindE m Inr = m"
  by (cases m) simp_all

lemma assertYield_simps:
  "assertYield ndebug AffineYieldOp = Inr []"
  "operation \<noteq> AffineYieldOp \<Longrightarrow> assertYield ndebug operation = (if ndebug then Inr [] else Inl AssertionFailed)"
  by (simp_all add: assertYield_def cassert_def)

subsection \<open>Row-major strides (C1)\<close>

lemma length_rowMajorStrides [simp]: "length (rowMajorStrides shape) = length shape"
  by (induction shape rule: rowMajorStrides.induct) simp_all

lemma rowMajorStrides_last: "shape \<noteq> [] \<Longrightarrow> last (rowMajorStrides shape) = 1"
  by (induction shape rule: rowMajorStrides.induct) (simp_all flip: length_0_conv)

lemma rowMajorStrides_step:
  "Suc k < length shape \<Longrightarrow>
   rowMajorStrides shape ! k = rowMajorStrides shape ! Suc k * shape ! Suc k"
proof (induction shape arbitrary: k rule: rowMajorStrides.induct)
  case (3 s t ss)
  show ?case
  proof (cases k)
    case 0
    have "rowMajorStrides (t # ss) \<noteq> []" by (simp flip: length_0_conv)
    then show ?thesis using 0 by (simp add: hd_conv_nth)
  next
    case (Suc j)
    then show ?thesis using 3 by simp
  qed
qed simp_all

lemma computeStrides_prefix:
  assumes "\<forall>s \<in> set (rowMajorStrides shape). fitsInt32 s"
  shows "m \<le> length shape \<Longrightarrow>
     foldl (\<lambda>strides i. strides @
              [if i = 0 then 1 else toInt32 (strides ! (i - 1) * shape ! (length shape - i))])
       [] [0 ..< m] = rev (drop (length shape - m) (rowMajorStrides shape))"
proof (induction m)
  case 0
  then show ?case by simp
next
  case (Suc m)
  let ?n = "length shape"
  let ?rm = "rowMajorStrides shape"
  have ih: "foldl (\<lambda>strides i. strides @
              [if i = 0 then 1 else toInt32 (strides ! (i - 1) * shape ! (length shape - i))])
       [] [0 ..< m] = rev (drop (?n - m) ?rm)" using Suc by simp
  have lt: "?n - Suc m < ?n" using Suc.prems by simp
  have dr: "drop (?n - Suc m) ?rm = ?rm ! (?n - Suc m) # drop (?n - m) ?rm"
    using Suc.prems lt by (metis Cons_nth_drop_Suc Suc_diff_Suc Suc_le_lessD length_rowMajorStrides)
  show ?case
  proof (cases m)
    case 0
    have ne: "shape \<noteq> []" using Suc.prems by auto
    have rne: "?rm \<noteq> []" using ne by (metis length_rowMajorStrides length_0_conv)
    have one: "?rm ! (?n - 1) = 1"
      using rowMajorStrides_last [OF ne] last_conv_nth [OF rne] by simp
    have "drop (?n - 1) ?rm = [?rm ! (?n - 1)]"
      using rne by (metis append_butlast_last_id append_eq_conv_conj last_conv_nth
          length_butlast length_rowMajorStrides)
    then have "rev (drop (?n - Suc 0) ?rm) = [1]" using one by simp
    moreover have "foldl (\<lambda>strides i. strides @
              [if i = 0 then 1 else toInt32 (strides ! (i - 1) * shape ! (length shape - i))])
       [] [0 ..< Suc 0] = [1]" by simp
    ultimately show ?thesis unfolding 0 by simp
  next
    case (Suc j)
    have len: "length (rev (drop (?n - m) ?rm)) = m" using Suc.prems by simp
    have prev: "rev (drop (?n - m) ?rm) ! (m - 1) = ?rm ! (?n - m)"
      using Suc Suc.prems len by (simp add: rev_nth)
    have st: "?rm ! (?n - Suc m) = ?rm ! (?n - m) * shape ! (?n - m)"
      using rowMajorStrides_step [of "?n - Suc m" shape] Suc.prems Suc by (simp add: Suc_diff_Suc)
    have "?rm ! (?n - Suc m) \<in> set ?rm" using lt by simp
    then have fit: "fitsInt32 (?rm ! (?n - m) * shape ! (?n - m))" using assms st by metis
    show ?thesis
      using Suc ih prev dr st toInt32_fits [OF fit] by simp
  qed
qed

lemma computeStrides_rowMajor:
  assumes "\<forall>s \<in> set (rowMajorStrides shape). fitsInt32 s"
  shows "computeStrides shape = rev (rowMajorStrides shape)"
  unfolding computeStrides_def using computeStrides_prefix [OF assms, of "length shape"] by simp

lemma globalTerms_render:
  "map (codegenExpr ndebug vm operands) exprs = map Inr rs \<Longrightarrow> length exprs \<le> length strides \<Longrightarrow>
   globalTerms ndebug vm operands strides (int (length exprs) - 1) exprs =
     Inr (concat (map2 (\<lambda>r s. r @ '' * '' @ to_string s @ '' + '') rs
                    (rev (take (length exprs) strides))))"
proof (induction exprs arbitrary: rs)
  case Nil
  then show ?case by simp
next
  case (Cons e es)
  from Cons.prems obtain r rs' where rs: "rs = r # rs'" by (cases rs) auto
  with Cons.prems have h: "codegenExpr ndebug vm operands e = Inr r"
    and t: "map (codegenExpr ndebug vm operands) es = map Inr rs'" by auto
  have le: "length es \<le> length strides" and lt: "length es < length strides" using Cons.prems by simp_all
  have tk: "rev (take (Suc (length es)) strides) = strides ! length es # rev (take (length es) strides)"
    using lt by (simp add: take_Suc_conv_app_nth)
  have ix: "int (length (e # es)) - 1 - 1 = int (length es) - 1" by simp
  show ?case
    using Cons.IH [OF t le] h lt
    by (simp add: rs tk del: globalTerms.simps) (simp add: ix)
qed


lemma codegenSubscript_global:
  assumes "getType memref = MemRefType elementType shape global"
    and "length exprs = length shape"
    and "\<forall>s \<in> set (rowMajorStrides shape). fitsInt32 s"
    and "map (codegenExpr ndebug vm operands) exprs = map Inr rs"
  shows "codegenSubscript ndebug vm memref exprs operands =
     Inr (''['' @ concat (map2 (\<lambda>r s. r @ '' * '' @ to_string s @ '' + '') rs (rowMajorStrides shape)) @ ''0]'')"
proof -
  have le: "length exprs \<le> length (computeStrides shape)"
    using assms(2) computeStrides_rowMajor [OF assms(3)] by simp
  have "rev (take (length exprs) (computeStrides shape)) = rowMajorStrides shape"
    using assms(2) computeStrides_rowMajor [OF assms(3)] by simp
  then show ?thesis
    using globalTerms_render [OF assms(4) le] assms(1) by (simp add: codegenSubscript_def)
qed

text \<open>
  C1, as amended. For a load or store on a global memref of shape \<open>s\<close> with as many access
  expressions as dimensions, when every row-major stride of the shape fits a 32-bit
  \<open>int\<close>: the subscript is \<open>[\<close>, then for each expression its text, \<open> * \<close>, its
  row-major stride and \<open> + \<close>, then \<open>0]\<close>. The strides satisfy \<open>stride[n-1] = 1\<close> and
  \<open>stride[k] = stride[k+1] * s[k+1]\<close>.
\<close>

theorem global_offset_row_major:
  assumes "getType memref = MemRefType elementType shape global"
    and "length exprs = length shape"
    and "\<forall>s \<in> set (rowMajorStrides shape). fitsInt32 s"
    and "map (codegenExpr ndebug vm operands) exprs = map Inr rs"
  shows "codegen ndebug vm curIndent (AffineLoadOp result memref exprs operands) =
           Inr (indent curIndent @ ''auto '' @ getValueName vm result @ '' = '' @ getValueName vm memref @
                ''['' @ concat (map2 (\<lambda>r s. r @ '' * '' @ to_string s @ '' + '') rs (rowMajorStrides shape)) @
                ''0]'' @ '';\<newline>'')
       \<and> codegen ndebug vm curIndent (AffineStoreOp value memref exprs operands) =
           Inr (indent curIndent @ getValueName vm memref @
                ''['' @ concat (map2 (\<lambda>r s. r @ '' * '' @ to_string s @ '' + '') rs (rowMajorStrides shape)) @
                ''0]'' @ '' = '' @ getValueName vm value @ '';\<newline>'')
       \<and> (shape \<noteq> [] \<longrightarrow> last (rowMajorStrides shape) = 1)
       \<and> (\<forall>k. Suc k < length shape \<longrightarrow>
              rowMajorStrides shape ! k = rowMajorStrides shape ! Suc k * shape ! Suc k)"
  using codegenSubscript_global [OF assms] rowMajorStrides_last rowMajorStrides_step
  by simp

text \<open>
  The instance of the spec: shape \<open>[4,3,2]\<close> at \<open>[i,j,k]\<close> gives
  \<open>i * 6 + j * 2 + k * 1 + 0\<close>. For shape \<open>[2,65536,65536]\<close> the outermost stride
  \<open>2^32\<close> is stored in an \<open>int\<close> as 0.
\<close>

theorem global_offset_witness:
  "codegen False
      [Value 11 (ScalarType IndexType) \<mapsto> ''i'', Value 12 (ScalarType IndexType) \<mapsto> ''j'',
       Value 13 (ScalarType IndexType) \<mapsto> ''k'', Value 14 (ScalarType Float32Type) \<mapsto> ''R0'',
       Value 15 (MemRefType Float32Type [4, 3, 2] global) \<mapsto> ''arg0''] 0
      (AffineLoadOp (Value 14 (ScalarType Float32Type)) (Value 15 (MemRefType Float32Type [4, 3, 2] global))
         [AffineDimExpr 0, AffineDimExpr 1, AffineDimExpr 2]
         [Value 11 (ScalarType IndexType), Value 12 (ScalarType IndexType), Value 13 (ScalarType IndexType)])
     = Inr ''auto R0 = arg0[i * 6 + j * 2 + k * 1 + 0];\<newline>''
   \<and> codegen False
      [Value 11 (ScalarType IndexType) \<mapsto> ''i'', Value 12 (ScalarType IndexType) \<mapsto> ''j'',
       Value 13 (ScalarType IndexType) \<mapsto> ''k'', Value 14 (ScalarType Float32Type) \<mapsto> ''R0'',
       Value 15 (MemRefType Float32Type [4, 3, 2] global) \<mapsto> ''arg0''] 0
      (AffineStoreOp (Value 14 (ScalarType Float32Type)) (Value 15 (MemRefType Float32Type [4, 3, 2] global))
         [AffineDimExpr 0, AffineDimExpr 1, AffineDimExpr 2]
         [Value 11 (ScalarType IndexType), Value 12 (ScalarType IndexType), Value 13 (ScalarType IndexType)])
     = Inr ''arg0[i * 6 + j * 2 + k * 1 + 0] = R0;\<newline>''
   \<and> rowMajorStrides [4, 3, 2] = [6, 2, 1]"
proof -
  let ?vm = "[Value 11 (ScalarType IndexType) \<mapsto> ''i'', Value 12 (ScalarType IndexType) \<mapsto> ''j'',
       Value 13 (ScalarType IndexType) \<mapsto> ''k'', Value 14 (ScalarType Float32Type) \<mapsto> ''R0'',
       Value 15 (MemRefType Float32Type [4, 3, 2] global) \<mapsto> ''arg0'']"
  let ?ops = "[Value 11 (ScalarType IndexType), Value 12 (ScalarType IndexType), Value 13 (ScalarType IndexType)]"
  let ?es = "[AffineDimExpr 0, AffineDimExpr 1, AffineDimExpr 2]"
  have ty: "getType (Value 15 (MemRefType Float32Type [4, 3, 2] global)) = MemRefType Float32Type [4, 3, 2] global"
    by simp
  have len: "length ?es = length [4, 3, 2 :: int]" by simp
  have rm: "rowMajorStrides [4, 3, 2] = [6, 2, 1]" by simp
  have fit: "\<forall>s \<in> set (rowMajorStrides [4, 3, 2]). fitsInt32 s"
    by (simp add: fitsInt32_def)
  have rs: "map (codegenExpr False ?vm ?ops) ?es = map Inr [''i'', ''j'', ''k'']"
    by code_simp
  have ts: "to_string 6 = ''6''" "to_string 2 = ''2''" "to_string 1 = ''1''" "indent 0 = []"
    by code_simp+
  have nm: "getValueName ?vm (Value 14 (ScalarType Float32Type)) = ''R0''"
    "getValueName ?vm (Value 15 (MemRefType Float32Type [4, 3, 2] global)) = ''arg0''"
    by (simp_all add: getValueName_def)
  show ?thesis
    using global_offset_row_major [OF ty len fit rs, of 0 "Value 14 (ScalarType Float32Type)" "Value 14 (ScalarType Float32Type)"]
    by (simp add: rm ts nm del: codegen.simps)
qed

theorem global_offset_counterexample:
  "codegen False
      [Value 11 (ScalarType IndexType) \<mapsto> ''i'', Value 12 (ScalarType IndexType) \<mapsto> ''j'',
       Value 13 (ScalarType IndexType) \<mapsto> ''k'', Value 14 (ScalarType Float32Type) \<mapsto> ''R0'',
       Value 15 (MemRefType Float32Type [2, 65536, 65536] global) \<mapsto> ''arg0''] 0
      (AffineLoadOp (Value 14 (ScalarType Float32Type))
         (Value 15 (MemRefType Float32Type [2, 65536, 65536] global))
         [AffineDimExpr 0, AffineDimExpr 1, AffineDimExpr 2]
         [Value 11 (ScalarType IndexType), Value 12 (ScalarType IndexType), Value 13 (ScalarType IndexType)])
     = Inr ''auto R0 = arg0[i * 0 + j * 65536 + k * 1 + 0];\<newline>''
   \<and> rowMajorStrides [2, 65536, 65536] = [4294967296, 65536, 1]
   \<and> computeStrides [2, 65536, 65536] = [1, 65536, 0]"
  by code_simp

subsection \<open>Naming a value twice (C4)\<close>

text \<open>
  C4, as amended. When the value has a name already, \<open>setValueName\<close> returns \<open>false\<close> and
  leaves the table as it is; the callers in \<open>collectVars\<close> drop the result and go on (the
  counter of the walk still advances). No error is raised and generation is not aborted.
\<close>

theorem setValueName_collision:
  assumes "vm v = Some old"
  shows "setValueName returnsAtEnd v name vm = Inr (Some False, vm)
       \<and> nameResult returnsAtEnd prefix suffix v (counter, st\<lparr>cvNames := vm\<rparr>)
           = Inr (counter + 1, st\<lparr>cvNames := vm\<rparr>)
       \<and> nameIVs returnsAtEnd prefix [v] vm = Inr vm"
  using assms by (simp add: setValueName_def nameResult_def nameIVs_def int3str_def)

theorem setValueName_collision_witness:
  "setValueName False (Value 1 (ScalarType IndexType)) ''iter0''
       [Value 1 (ScalarType IndexType) \<mapsto> ''threadIdx.x'']
     = Inr (Some False, [Value 1 (ScalarType IndexType) \<mapsto> ''threadIdx.x''])"
  using setValueName_collision [of "[Value 1 (ScalarType IndexType) \<mapsto> ''threadIdx.x'']"
      "Value 1 (ScalarType IndexType)" "''threadIdx.x''" False "''iter0''"]
  by simp

text \<open>
  A kernel in which the induction variable of a loop is a value that the walk over the
  parallel operations has named before, in a build where \<open>setValueName\<close> comes back from
  storing a name: the second \<open>setValueName\<close> changes nothing and the kernel is generated,
  the loop written with the first name.
\<close>

theorem name_collision_counterexample:
  "map_sum id source
     (codegenKernel True False getImpl (\<lambda>_. [1]) 0
        (AffineParallelOp [Value 12 (ScalarType IndexType)]
           [AffineParallelOp [Value 11 (ScalarType IndexType)]
              [ConstantFloatOp (Value 13 (ScalarType Float32Type)) ''1'',
               AffineForOp (Value 11 (ScalarType IndexType)) 0 8 1 None
                 [AffineStoreOp (Value 13 (ScalarType Float32Type))
                    (Value 14 (MemRefType Float32Type [8] global))
                    [AffineDimExpr 0] [Value 11 (ScalarType IndexType)],
                  AffineYieldOp],
               AffineYieldOp],
            AffineYieldOp])
        \<lparr>kernelCounter = 0, varCounter = 0, source = [], valueNameMap = Map.empty\<rparr>)
   = Inr (''// grid dims:(1, ), block dims:(1, )\<newline>'' @
          ''__global__ void kernel0(float* arg0) {\<newline>'' @
          ''  constexpr float const0th = 1;\<newline>'' @
          ''  for (int threadIdx.x = 0; threadIdx.x < 8; threadIdx.x += 1) {\<newline>'' @
          ''    arg0[threadIdx.x * 1 + 0] = const0th;\<newline>'' @
          ''  }\<newline>'' @
          ''}\<newline>'')"
  by code_simp

subsection \<open>The condition of an if (C5)\<close>

lemma codegenConstraints_render:
  "map (\<lambda>c. codegenExpr ndebug vm operands (fst c)) cs = map Inr rs \<Longrightarrow>
   codegenConstraints ndebug vm operands cs =
     Inr (concat (map2 (\<lambda>r c. r @ '' '' @ (if snd c then ''=='' else ''>='') @ '' 0 && '') rs cs))"
proof (induction cs arbitrary: rs)
  case Nil
  then show ?case by simp
next
  case (Cons c cs)
  obtain e isEq where c: "c = (e, isEq)" by (cases c)
  from Cons.prems obtain r rs' where rs: "rs = r # rs'" by (cases rs) auto
  with Cons.prems c have h: "codegenExpr ndebug vm operands e = Inr r"
    and t: "map (\<lambda>c. codegenExpr ndebug vm operands (fst c)) cs = map Inr rs'" by auto
  show ?case using Cons.IH [OF t] h by (simp add: c rs relation_def)
qed

text \<open>
  C5, as amended. The condition written for an \<open>AffineIfOp\<close> is, for each constraint in
  order, the text of its expression followed by \<open> == 0 && \<close> or \<open> >= 0 && \<close>, and after
  the last one \<open> true\<close>; the statement ends with \<open>) {\<close>, the body and \<open>}\<close>.
\<close>

theorem if_condition_text:
  assumes "map (\<lambda>c. codegenExpr ndebug vm operands (fst c)) constraints = map Inr rs"
    and "codegenIfBody ndebug vm (curIndent + 1) thenOps = Inr body"
  shows "codegen ndebug vm curIndent (AffineIfOp constraints operands thenOps elseOps) =
     Inr (indent curIndent @ ''if ('' @
          concat (map2 (\<lambda>r c. r @ '' '' @ (if snd c then ''=='' else ''>='') @ '' 0 && '') rs constraints) @
          '' true) {\<newline>'' @ body @ indent curIndent @ ''}\<newline>'')"
  using codegenConstraints_render [OF assms(1)] assms(2) by simp

theorem if_condition_counterexample:
  "codegen False [Value 1 (ScalarType IndexType) \<mapsto> ''i'', Value 2 (ScalarType IndexType) \<mapsto> ''j''] 0
     (AffineIfOp [(AffineBinaryOpExpr Add (AffineDimExpr 0) (AffineConstantExpr (- 2)), True),
                  (AffineDimExpr 1, False)]
        [Value 1 (ScalarType IndexType), Value 2 (ScalarType IndexType)] [AffineYieldOp] [])
   = Inr ''if ((i + -2) == 0 && j >= 0 &&  true) {\<newline>}\<newline>''
  \<and> take 27 ''if ((i + -2) == 0 && j >= 0 &&  true) {\<newline>}\<newline>'' \<noteq> ''if (i - 2 == 0 && j >= 0)''"
  by code_simp

theorem if_condition_witness:
  "codegen False [Value 1 (ScalarType IndexType) \<mapsto> ''i'', Value 2 (ScalarType IndexType) \<mapsto> ''j''] 0
     (AffineIfOp [(AffineBinaryOpExpr Add (AffineDimExpr 0) (AffineConstantExpr (- 2)), True),
                  (AffineDimExpr 1, False)]
        [Value 1 (ScalarType IndexType), Value 2 (ScalarType IndexType)] [AffineYieldOp] [])
   = Inr ''if ((i + -2) == 0 && j >= 0 &&  true) {\<newline>}\<newline>''"
proof -
  let ?vm = "[Value 1 (ScalarType IndexType) \<mapsto> ''i'', Value 2 (ScalarType IndexType) \<mapsto> ''j'']"
  let ?ops = "[Value 1 (ScalarType IndexType), Value 2 (ScalarType IndexType)]"
  let ?cs = "[(AffineBinaryOpExpr Add (AffineDimExpr 0) (AffineConstantExpr (- 2)), True),
              (AffineDimExpr 1, False)]"
  have r: "map (\<lambda>c. codegenExpr False ?vm ?ops (fst c)) ?cs = map Inr [''(i + -2)'', ''j'']"
    by code_simp
  have b: "codegenIfBody False ?vm (0 + 1) [AffineYieldOp] = Inr []"
    by code_simp
  have i0: "indent 0 = []" by code_simp
  show ?thesis
    using if_condition_text [OF r b, of "[]"] by (simp add: i0)
qed

subsection \<open>Operations with no branch in a body loop (C7, C9)\<close>

text \<open>
  C7, as amended. An operation that is not a yield and that the \<open>dyn_cast\<close> chain of its
  container does not name reaches \<open>assert(yieldOp)\<close>: with assertions enabled the process
  aborts; with assertions compiled out nothing is written for it and the loop goes on with
  the next operation. No error value is returned.
\<close>

theorem unhandled_kind_asserts:
  assumes "operation \<noteq> AffineYieldOp"
  shows "(\<not> forBodyHandles operation \<longrightarrow>
            codegenForBody ndebug vm curIndent (operation # ops) =
              (if ndebug then codegenForBody ndebug vm curIndent ops else Inl AssertionFailed))
       \<and> (\<not> innerBodyHandles operation \<longrightarrow>
            codegenInnerBody ndebug vm curIndent (operation # ops) =
              (if ndebug then codegenInnerBody ndebug vm curIndent ops else Inl AssertionFailed))
       \<and> (\<not> ifBodyHandles operation \<longrightarrow>
            codegenIfBody ndebug vm curIndent (operation # ops) =
              (if ndebug then codegenIfBody ndebug vm curIndent ops else Inl AssertionFailed))
       \<and> (\<not> kernelBodyHandles operation \<and> \<not> isParallelOp operation \<longrightarrow>
            codegenKernelBody ndebug vm curIndent (operation # ops) =
              (if ndebug then codegenKernelBody ndebug vm curIndent ops else Inl AssertionFailed))"
proof -
  have k: "\<not> isParallelOp operation \<Longrightarrow>
      (case operation of AffineParallelOp ivs innerOps \<Rightarrow> codegenInnerBody ndebug vm curIndent innerOps
        | _ \<Rightarrow> assertYield ndebug operation) = assertYield ndebug operation"
    by (cases operation) (simp_all add: isParallelOp_def)
  show ?thesis
    using assms by (simp add: assertYield_simps k)
qed

theorem unhandled_kind_counterexample:
  "codegen False Map.empty 0
      (AffineForOp (Value 1 (ScalarType IndexType)) 0 4 1 None
         [BitcastOp (Value 2 (ScalarType Float32Type)) (Value 3 (ScalarType Float32Type)), AffineYieldOp])
     = Inl AssertionFailed
   \<and> codegen True Map.empty 0
      (AffineForOp (Value 1 (ScalarType IndexType)) 0 4 1 None
         [BitcastOp (Value 2 (ScalarType Float32Type)) (Value 3 (ScalarType Float32Type)), AffineYieldOp])
     = codegen True Map.empty 0
      (AffineForOp (Value 1 (ScalarType IndexType)) 0 4 1 None [AffineYieldOp])
   \<and> codegen True Map.empty 0
      (AffineForOp (Value 1 (ScalarType IndexType)) 0 4 1 None [AffineYieldOp])
     = Inr ''for (int false = 0; false < 4; false += 1) {\<newline>}\<newline>''"
  by code_simp

theorem unhandled_kind_witness:
  "codegenForBody False Map.empty 1
      [BitcastOp (Value 2 (ScalarType Float32Type)) (Value 3 (ScalarType Float32Type)), AffineYieldOp]
     = Inl AssertionFailed
   \<and> codegenForBody True Map.empty 1
      [BitcastOp (Value 2 (ScalarType Float32Type)) (Value 3 (ScalarType Float32Type)), AffineYieldOp]
     = Inr []
   \<and> codegenInnerBody False Map.empty 1
      [ExpOp (Value 2 (ScalarType Float32Type)) (Value 3 (ScalarType Float32Type)), AffineYieldOp]
     = Inl AssertionFailed
   \<and> codegenIfBody False Map.empty 1
      [TanhOp (Value 2 (ScalarType Float32Type)) (Value 3 (ScalarType Float32Type)), AffineYieldOp]
     = Inl AssertionFailed
   \<and> codegenKernelBody False Map.empty 1
      [AddFOp (Value 2 (ScalarType Float32Type)) (Value 3 (ScalarType Float32Type))
         (Value 3 (ScalarType Float32Type)), AffineYieldOp]
     = Inl AssertionFailed"
proof -
  let ?b = "BitcastOp (Value 2 (ScalarType Float32Type)) (Value 3 (ScalarType Float32Type))"
  let ?e = "ExpOp (Value 2 (ScalarType Float32Type)) (Value 3 (ScalarType Float32Type))"
  let ?t = "TanhOp (Value 2 (ScalarType Float32Type)) (Value 3 (ScalarType Float32Type))"
  let ?a = "AddFOp (Value 2 (ScalarType Float32Type)) (Value 3 (ScalarType Float32Type))
         (Value 3 (ScalarType Float32Type))"
  have ne: "?b \<noteq> AffineYieldOp" "?e \<noteq> AffineYieldOp" "?t \<noteq> AffineYieldOp" "?a \<noteq> AffineYieldOp"
    by simp_all
  have nh: "\<not> forBodyHandles ?b" "\<not> innerBodyHandles ?e" "\<not> ifBodyHandles ?t"
    "\<not> kernelBodyHandles ?a \<and> \<not> isParallelOp ?a"
    by (simp_all add: isParallelOp_def)
  have y: "codegenForBody True Map.empty 1 [AffineYieldOp] = Inr []"
    by (simp add: assertYield_simps)
  show ?thesis
    using unhandled_kind_asserts [OF ne(1), of False Map.empty 1 "[AffineYieldOp]"]
      unhandled_kind_asserts [OF ne(1), of True Map.empty 1 "[AffineYieldOp]"]
      unhandled_kind_asserts [OF ne(2), of False Map.empty 1 "[AffineYieldOp]"]
      unhandled_kind_asserts [OF ne(3), of False Map.empty 1 "[AffineYieldOp]"]
      unhandled_kind_asserts [OF ne(4), of False Map.empty 1 "[AffineYieldOp]"]
      nh y
    by (simp del: codegenForBody.simps codegenInnerBody.simps codegenIfBody.simps codegenKernelBody.simps)
qed

text \<open>
  C9. An \<open>AffineApplyOp\<close> directly in the body of an \<open>AffineIfOp\<close> has no branch in that
  chain and reaches \<open>assert(yieldOp)\<close>; directly in the body of an \<open>AffineForOp\<close>, of a
  kernel or of the nested parallel operation it is handed to its emitter.
\<close>

theorem apply_unhandled_in_if:
  "codegenIfBody ndebug vm curIndent (AffineApplyOp result exprs operands # ops) =
     (if ndebug then codegenIfBody ndebug vm curIndent ops else Inl AssertionFailed)
   \<and> codegenForBody ndebug vm curIndent (AffineApplyOp result exprs operands # ops) =
       bindE (codegen ndebug vm curIndent (AffineApplyOp result exprs operands)) (\<lambda>t.
       bindE (codegenForBody ndebug vm curIndent ops) (\<lambda>rest. Inr (t @ rest)))
   \<and> codegenInnerBody ndebug vm curIndent (AffineApplyOp result exprs operands # ops) =
       bindE (codegen ndebug vm curIndent (AffineApplyOp result exprs operands)) (\<lambda>t.
       bindE (codegenInnerBody ndebug vm curIndent ops) (\<lambda>rest. Inr (t @ rest)))
   \<and> codegenKernelBody ndebug vm curIndent (AffineApplyOp result exprs operands # ops) =
       bindE (codegen ndebug vm curIndent (AffineApplyOp result exprs operands)) (\<lambda>t.
       bindE (codegenKernelBody ndebug vm curIndent ops) (\<lambda>rest. Inr (t @ rest)))"
  by (simp add: assertYield_simps)

theorem apply_unhandled_in_if_witness:
  "codegen False [Value 1 (ScalarType IndexType) \<mapsto> ''expr0'', Value 2 (ScalarType IndexType) \<mapsto> ''iter0''] 0
     (AffineIfOp [] []
        [AffineApplyOp (Value 1 (ScalarType IndexType)) [AffineDimExpr 0] [Value 2 (ScalarType IndexType)],
         AffineYieldOp] [])
    = Inl AssertionFailed
  \<and> codegen True [Value 1 (ScalarType IndexType) \<mapsto> ''expr0'', Value 2 (ScalarType IndexType) \<mapsto> ''iter0''] 0
     (AffineIfOp [] []
        [AffineApplyOp (Value 1 (ScalarType IndexType)) [AffineDimExpr 0] [Value 2 (ScalarType IndexType)],
         AffineYieldOp] [])
    = Inr ''if ( true) {\<newline>}\<newline>''
  \<and> codegen False [Value 1 (ScalarType IndexType) \<mapsto> ''expr0'', Value 2 (ScalarType IndexType) \<mapsto> ''iter0''] 0
     (AffineForOp (Value 2 (ScalarType IndexType)) 0 4 1 None
        [AffineApplyOp (Value 1 (ScalarType IndexType)) [AffineDimExpr 0] [Value 2 (ScalarType IndexType)],
         AffineYieldOp])
    = Inr ''for (int iter0 = 0; iter0 < 4; iter0 += 1) {\<newline>  int expr0 = iter0;\<newline>}\<newline>''"
proof -
  let ?vm = "[Value 1 (ScalarType IndexType) \<mapsto> ''expr0'', Value 2 (ScalarType IndexType) \<mapsto> ''iter0'']"
  let ?a = "AffineApplyOp (Value 1 (ScalarType IndexType)) [AffineDimExpr 0] [Value 2 (ScalarType IndexType)]"
  note t = apply_unhandled_in_if [of _ ?vm 1 "Value 1 (ScalarType IndexType)" "[AffineDimExpr 0]" "[Value 2 (ScalarType IndexType)]" "[AffineYieldOp]"]
  have y: "\<And>nd. codegenIfBody nd ?vm 1 [AffineYieldOp] = Inr []" "\<And>nd. codegenForBody nd ?vm 1 [AffineYieldOp] = Inr []"
    by (simp_all add: assertYield_simps)
  have a: "codegen False ?vm 1 ?a = Inr ''  int expr0 = iter0;\<newline>''" by code_simp
  have i0: "indent 0 = []" "to_string 0 = ''0''" "to_string 4 = ''4''" "to_string 1 = ''1''" by code_simp+
  show ?thesis
    using t [of False] t [of True] y a
    by (simp add: i0 getValueName_def del: codegenForBody.simps codegenIfBody.simps codegen.simps(4))
qed

subsection \<open>The naming pass\<close>

lemma eventVals_simps [simp]:
  "eventVals [] = {}"
  "eventVals (e # es) = set_option (fst e) \<union> set (snd e) \<union> eventVals es"
  "eventVals (es @ es') = eventVals es \<union> eventVals es'"
  by (auto simp: eventVals_def)

lemma storeName_eq:
  "(storeName v name vm) = (if vm v = None then vm(v \<mapsto> name) else vm)"
  by (simp add: storeName_def)

lemma nameResult_apply:
  "nameResultRet prefix suffix r (counter, st) =
     (counter + 1,
      st\<lparr>cvNames := (storeName r (prefix @ to_string (int counter) @ suffix) (cvNames st))\<rparr>)"
  by (simp add: nameResultRet_def)

lemma fold_nameResult:
  "fold (nameResultRet prefix suffix) results (counter, st) = (counter', st') \<Longrightarrow>
   outsidesVars st' = outsidesVars st \<and> cvId st' = cvId st \<and> cvVarCounter st' = cvVarCounter st
   \<and> dom (cvNames st') = dom (cvNames st) \<union> set results
   \<and> cvNames st \<subseteq>\<^sub>m cvNames st'"
proof (induction results arbitrary: counter st)
  case Nil
  then show ?case by simp
next
  case (Cons r rs)
  let ?st1 = "st\<lparr>cvNames := (storeName r (prefix @ to_string (int counter) @ suffix) (cvNames st))\<rparr>"
  have "fold (nameResultRet prefix suffix) rs (counter + 1, ?st1) = (counter', st')"
    using Cons.prems by (simp add: nameResult_apply)
  from Cons.IH [OF this]
  have ih: "outsidesVars st' = outsidesVars ?st1" "cvId st' = cvId ?st1"
    "cvVarCounter st' = cvVarCounter ?st1"
    "dom (cvNames st') = dom (cvNames ?st1) \<union> set rs" "cvNames ?st1 \<subseteq>\<^sub>m cvNames st'"
    by blast+
  have d: "dom (cvNames ?st1) = insert r (dom (cvNames st))"
    by (auto simp: storeName_eq)
  have m: "cvNames st \<subseteq>\<^sub>m cvNames ?st1"
    by (auto simp: storeName_eq map_le_def)
  show ?case
    using ih d map_le_trans [OF m ih(5)] by auto
qed

lemma captureMem_named: "hasName (cvNames st) mem \<Longrightarrow> captureMemRet mem st = st"
  by (auto simp: captureMemRet_def hasName_def)

lemma captureMem_unnamed:
  assumes "\<not> hasName (cvNames st) mem" and "cvInv st"
  shows "captureMemRet mem st =
     st\<lparr>outsidesVars := outsidesVars st @ [(mem, cvId st)],
        cvId := cvId st + 1,
        cvNames := (cvNames st)(mem \<mapsto> fst (getArgName (cvVarCounter st))),
        cvVarCounter := snd (getArgName (cvVarCounter st))\<rparr>"
proof -
  have "mem \<notin> fst ` set (outsidesVars st)"
    using assms by (auto simp: cvInv_def hasName_def)
  then have "map_of (outsidesVars st) mem = None"
    by (simp add: map_of_eq_None_iff)
  then show ?thesis using assms(1) by (simp add: captureMemRet_def storeName_eq hasName_def)
qed

lemma captureMem_effect:
  assumes "cvInv st"
  shows "cvInv (captureMemRet mem st)
       \<and> map fst (outsidesVars (captureMemRet mem st)) =
           map fst (outsidesVars st) @ (if hasName (cvNames st) mem then [] else [mem])
       \<and> dom (cvNames (captureMemRet mem st)) = insert mem (dom (cvNames st))
       \<and> cvNames st \<subseteq>\<^sub>m cvNames (captureMemRet mem st)"
proof (cases "hasName (cvNames st) mem")
  case False
  have nin: "mem \<notin> fst ` set (outsidesVars st)"
    using False assms by (auto simp: cvInv_def hasName_def)
  have un: "cvNames st mem = None" using False by (simp add: hasName_def)
  show ?thesis
    using assms False nin un
    by (auto simp: captureMem_unnamed [OF False assms] cvInv_def map_le_def)
next
  case True
  then have "mem \<in> dom (cvNames st)" by (auto simp: hasName_def)
  then show ?thesis using assms True by (auto simp: captureMem_named)
qed

lemma visit_effect:
  assumes "visitRet prefix suffix mem results (counter, st) = (counter', st')" and "cvInv st"
  shows "cvInv st'
       \<and> map fst (outsidesVars st') =
           map fst (outsidesVars st) @
           (case mem of None \<Rightarrow> [] | Some m \<Rightarrow> if hasName (cvNames st) m then [] else [m])
       \<and> dom (cvNames st') = dom (cvNames st) \<union> set_option mem \<union> set results
       \<and> cvNames st \<subseteq>\<^sub>m cvNames st'"
proof -
  define st1 where "st1 = (case mem of None \<Rightarrow> st | Some m \<Rightarrow> captureMemRet m st)"
  have "visitRet prefix suffix mem results (counter, st) =
          fold (nameResultRet prefix suffix) results (counter, st1)"
    unfolding visitRet_def st1_def by simp
  then have f: "fold (nameResultRet prefix suffix) results (counter, st1) = (counter', st')"
    using assms(1) by (simp only:)
  from fold_nameResult [OF f]
  have n1: "outsidesVars st' = outsidesVars st1" and n2: "cvId st' = cvId st1"
    and n3: "dom (cvNames st') = dom (cvNames st1) \<union> set results"
    and n4: "cvNames st1 \<subseteq>\<^sub>m cvNames st'"
    by blast+
  have c: "cvInv st1 \<and> map fst (outsidesVars st1) =
           map fst (outsidesVars st) @
           (case mem of None \<Rightarrow> [] | Some m \<Rightarrow> if hasName (cvNames st) m then [] else [m])
       \<and> dom (cvNames st1) = dom (cvNames st) \<union> set_option mem
       \<and> cvNames st \<subseteq>\<^sub>m cvNames st1"
  proof (cases mem)
    case None
    then have "st1 = st" by (simp add: st1_def)
    then show ?thesis using assms(2) None by simp
  next
    case (Some m)
    then have "st1 = captureMemRet m st" by (simp add: st1_def)
    then show ?thesis using captureMem_effect [OF assms(2), of m] Some by simp
  qed
  then have c1: "cvInv st1"
    and c2: "map fst (outsidesVars st1) =
           map fst (outsidesVars st) @
           (case mem of None \<Rightarrow> [] | Some m \<Rightarrow> if hasName (cvNames st) m then [] else [m])"
    and c3: "dom (cvNames st1) = dom (cvNames st) \<union> set_option mem"
    and c4: "cvNames st \<subseteq>\<^sub>m cvNames st1" by blast+
  have a1: "fst ` set (outsidesVars st1) \<subseteq> dom (cvNames st1)"
    and a2: "map snd (outsidesVars st1) = [0 ..< cvId st1]"
    and a3: "distinct (map fst (outsidesVars st1))"
    using c1 by (simp_all add: cvInv_def)
  have b1: "fst ` set (outsidesVars st') \<subseteq> dom (cvNames st')"
    unfolding n1 n3 using a1 by (rule le_supI1)
  have b2: "map snd (outsidesVars st') = [0 ..< cvId st']"
    unfolding n1 n2 by (rule a2)
  have b3: "distinct (map fst (outsidesVars st'))"
    unfolding n1 by (rule a3)
  have inv: "cvInv st'"
    unfolding cvInv_def using b1 b2 b3 by (intro conjI)
  have o: "map fst (outsidesVars st') =
           map fst (outsidesVars st) @
           (case mem of None \<Rightarrow> [] | Some m \<Rightarrow> if hasName (cvNames st) m then [] else [m])"
    unfolding n1 by (rule c2)
  have d: "dom (cvNames st') = dom (cvNames st) \<union> set_option mem \<union> set results"
    unfolding n3 c3 by (rule refl)
  show ?thesis
    using inv o d map_le_trans [OF c4 n4] by (intro conjI)
qed


lemma map_filter_Cons_None: "sel x = None \<Longrightarrow> List.map_filter sel (x # xs) = List.map_filter sel xs"
  by (simp add: List.map_filter_simps)

lemma map_filter_Cons_Some: "sel x = Some y \<Longrightarrow> List.map_filter sel (x # xs) = y # List.map_filter sel xs"
  by (simp add: List.map_filter_simps)

lemma hasName_after:
  assumes "dom vm1 = dom vm \<union> set_option mem \<union> set results"
  shows "hasName vm1 = (\<lambda>v. hasName vm v \<or> Some v = mem \<or> v \<in> set results)"
proof
  fix v
  have "v \<in> dom vm1 \<longleftrightarrow> v \<in> dom vm \<union> set_option mem \<union> set results"
    using assms by simp
  then show "hasName vm1 v = (hasName vm v \<or> Some v = mem \<or> v \<in> set results)"
    by (cases mem) (auto simp: dom_def hasName_def)
qed

lemma pass_effect:
  assumes "fold (\<lambda>operation. case sel operation of None \<Rightarrow> id
                   | Some (mem, results) \<Rightarrow> visitRet prefix suffix mem results) ops (counter, st)
             = (counter', st')"
    and "cvInv st"
  shows "cvInv st'
       \<and> map fst (outsidesVars st') =
           map fst (outsidesVars st) @ firstEncounter (hasName (cvNames st)) (List.map_filter sel ops)
       \<and> dom (cvNames st') = dom (cvNames st) \<union> eventVals (List.map_filter sel ops)
       \<and> cvNames st \<subseteq>\<^sub>m cvNames st'"
  using assms
proof (induction ops arbitrary: counter st)
  case Nil
  then show ?case by (simp add: List.map_filter_simps)
next
  case (Cons operation ops)
  show ?case
  proof (cases "sel operation")
    case None
    have r: "fold (\<lambda>operation. case sel operation of None \<Rightarrow> id
                   | Some (mem, results) \<Rightarrow> visitRet prefix suffix mem results) ops (counter, st)
             = (counter', st')"
      using Cons.prems(1) None by simp
    show ?thesis
      using Cons.IH [OF r Cons.prems(2)] by (simp only: map_filter_Cons_None [of sel operation, OF None])
  next
    case (Some e)
    obtain mem results where e: "e = (mem, results)" by (cases e)
    have se: "sel operation = Some (mem, results)" using Some e by simp
    obtain c1 st1 where v: "visitRet prefix suffix mem results (counter, st) = (c1, st1)"
      by (cases "visitRet prefix suffix mem results (counter, st)")
    from visit_effect [OF v Cons.prems(2)]
    have v1: "cvInv st1"
      and v2: "map fst (outsidesVars st1) = map fst (outsidesVars st) @
           (case mem of None \<Rightarrow> [] | Some m \<Rightarrow> if hasName (cvNames st) m then [] else [m])"
      and v3: "dom (cvNames st1) = dom (cvNames st) \<union> set_option mem \<union> set results"
      and v4: "cvNames st \<subseteq>\<^sub>m cvNames st1"
      by (simp_all only:)
    have r: "fold (\<lambda>operation. case sel operation of None \<Rightarrow> id
                   | Some (mem, results) \<Rightarrow> visitRet prefix suffix mem results) ops (c1, st1)
             = (counter', st')"
      using Cons.prems(1) se v by simp
    from Cons.IH [OF r v1]
    have i1: "cvInv st'"
      and i2: "map fst (outsidesVars st') =
           map fst (outsidesVars st1) @ firstEncounter (hasName (cvNames st1)) (List.map_filter sel ops)"
      and i3: "dom (cvNames st') = dom (cvNames st1) \<union> eventVals (List.map_filter sel ops)"
      and i4: "cvNames st1 \<subseteq>\<^sub>m cvNames st'"
      by (simp_all only:)
    have fe: "firstEncounter (hasName (cvNames st)) (List.map_filter sel (operation # ops)) =
        (case mem of None \<Rightarrow> [] | Some m \<Rightarrow> if hasName (cvNames st) m then [] else [m]) @
        firstEncounter (hasName (cvNames st1)) (List.map_filter sel ops)"
      unfolding map_filter_Cons_Some [of sel operation, OF se] hasName_after [OF v3] by simp
    have o: "map fst (outsidesVars st') =
           map fst (outsidesVars st) @
           firstEncounter (hasName (cvNames st)) (List.map_filter sel (operation # ops))"
      unfolding fe i2 v2 by simp
    have d: "dom (cvNames st') =
           dom (cvNames st) \<union> eventVals (List.map_filter sel (operation # ops))"
      unfolding map_filter_Cons_Some [of sel operation, OF se] i3 v3 by auto
    show ?thesis
      using i1 o d map_le_trans [OF v4 i4] by (intro conjI)
  qed
qed


lemma hasName_dom:
  assumes "dom vm1 = dom vm \<union> S"
  shows "hasName vm1 = (\<lambda>v. hasName vm v \<or> v \<in> S)"
proof
  fix v
  have "v \<in> dom vm1 \<longleftrightarrow> v \<in> dom vm \<union> S" using assms by simp
  then show "hasName vm1 v = (hasName vm v \<or> v \<in> S)"
    by (auto simp: dom_def hasName_def)
qed

lemma firstEncounter_append:
  "firstEncounter named (es1 @ es2) =
     firstEncounter named es1 @ firstEncounter (\<lambda>v. named v \<or> v \<in> eventVals es1) es2"
proof (induction es1 arbitrary: named)
  case Nil
  then show ?case by simp
next
  case (Cons e es1)
  obtain mem results where e: "e = (mem, results)" by (cases e)
  have p: "(\<lambda>v. named v \<or> v \<in> eventVals ((mem, results) # es1)) =
           (\<lambda>v. named v \<or> Some v = mem \<or> v \<in> set results \<or> v \<in> eventVals es1)"
    by (rule ext) (cases mem; auto)
  show ?case
    unfolding e using Cons.IH [of "\<lambda>v. named v \<or> Some v = mem \<or> v \<in> set results"]
    by (simp add: p del: eventVals_simps)
qed

lemma sels_effect:
  assumes "fold (\<lambda>sel. walkPassRet sel prefix suffix node) sels (counter, st) = (counter', st')"
    and "cvInv st"
  shows "cvInv st'
       \<and> map fst (outsidesVars st') =
           map fst (outsidesVars st) @ firstEncounter (hasName (cvNames st)) (selsEvents node sels)
       \<and> dom (cvNames st') = dom (cvNames st) \<union> eventVals (selsEvents node sels)
       \<and> cvNames st \<subseteq>\<^sub>m cvNames st'"
  using assms
proof (induction sels arbitrary: counter st)
  case Nil
  then show ?case by (simp add: selsEvents_def)
next
  case (Cons sel sels)
  obtain c1 st1 where w: "walkPassRet sel prefix suffix node (counter, st) = (c1, st1)"
    by (cases "walkPassRet sel prefix suffix node (counter, st)")
  from pass_effect [OF w [unfolded walkPassRet_def] Cons.prems(2)]
  have v1: "cvInv st1"
    and v2: "map fst (outsidesVars st1) = map fst (outsidesVars st) @
           firstEncounter (hasName (cvNames st)) (List.map_filter sel (walk node))"
    and v3: "dom (cvNames st1) = dom (cvNames st) \<union> eventVals (List.map_filter sel (walk node))"
    and v4: "cvNames st \<subseteq>\<^sub>m cvNames st1"
    by (simp_all only:)
  have r: "fold (\<lambda>sel. walkPassRet sel prefix suffix node) sels (c1, st1) = (counter', st')"
    using Cons.prems(1) w by simp
  from Cons.IH [OF r v1]
  have i1: "cvInv st'"
    and i2: "map fst (outsidesVars st') =
           map fst (outsidesVars st1) @ firstEncounter (hasName (cvNames st1)) (selsEvents node sels)"
    and i3: "dom (cvNames st') = dom (cvNames st1) \<union> eventVals (selsEvents node sels)"
    and i4: "cvNames st1 \<subseteq>\<^sub>m cvNames st'"
    by (simp_all only:)
  have ev: "selsEvents node (sel # sels) = List.map_filter sel (walk node) @ selsEvents node sels"
    by (simp add: selsEvents_def)
  have o: "map fst (outsidesVars st') =
           map fst (outsidesVars st) @ firstEncounter (hasName (cvNames st)) (selsEvents node (sel # sels))"
    unfolding ev firstEncounter_append i2 v2 hasName_dom [OF v3] by simp
  have d: "dom (cvNames st') = dom (cvNames st) \<union> eventVals (selsEvents node (sel # sels))"
    unfolding ev i3 v3 by auto
  show ?case
    using i1 o d map_le_trans [OF v4 i4] by (intro conjI)
qed

lemma groups_effect:
  assumes "cvInv st"
  shows "cvInv (fold (\<lambda>grp. walkGroupRet grp node) grps st)
       \<and> map fst (outsidesVars (fold (\<lambda>grp. walkGroupRet grp node) grps st)) =
           map fst (outsidesVars st) @ firstEncounter (hasName (cvNames st)) (groupsEvents node grps)
       \<and> dom (cvNames (fold (\<lambda>grp. walkGroupRet grp node) grps st)) =
           dom (cvNames st) \<union> eventVals (groupsEvents node grps)
       \<and> cvNames st \<subseteq>\<^sub>m cvNames (fold (\<lambda>grp. walkGroupRet grp node) grps st)"
  using assms
proof (induction grps arbitrary: st)
  case Nil
  then show ?case by (simp add: groupsEvents_def)
next
  case (Cons grp grps)
  obtain prefix suffix sels where g: "grp = (prefix, suffix, sels)" by (cases grp)
  define st1 where "st1 = walkGroupRet grp node st"
  obtain c1 where w: "fold (\<lambda>sel. walkPassRet sel prefix suffix node) sels (0, st) = (c1, st1)"
    unfolding st1_def g walkGroupRet_def
    by (cases "fold (\<lambda>sel. walkPassRet sel prefix suffix node) sels (0, st)") simp
  from sels_effect [OF w Cons.prems]
  have v1: "cvInv st1"
    and v2: "map fst (outsidesVars st1) = map fst (outsidesVars st) @
           firstEncounter (hasName (cvNames st)) (selsEvents node sels)"
    and v3: "dom (cvNames st1) = dom (cvNames st) \<union> eventVals (selsEvents node sels)"
    and v4: "cvNames st \<subseteq>\<^sub>m cvNames st1"
    by (simp_all only:)
  define st' where "st' = fold (\<lambda>grp. walkGroupRet grp node) grps st1"
  have f: "fold (\<lambda>grp. walkGroupRet grp node) (grp # grps) st = st'"
    by (simp add: st'_def st1_def)
  from Cons.IH [OF v1]
  have i1: "cvInv st'"
    and i2: "map fst (outsidesVars st') =
           map fst (outsidesVars st1) @ firstEncounter (hasName (cvNames st1)) (groupsEvents node grps)"
    and i3: "dom (cvNames st') = dom (cvNames st1) \<union> eventVals (groupsEvents node grps)"
    and i4: "cvNames st1 \<subseteq>\<^sub>m cvNames st'"
    unfolding st'_def by (simp_all only:)
  have ev: "groupsEvents node (grp # grps) = selsEvents node sels @ groupsEvents node grps"
    by (simp add: groupsEvents_def g)
  have o: "map fst (outsidesVars st') =
           map fst (outsidesVars st) @ firstEncounter (hasName (cvNames st)) (groupsEvents node (grp # grps))"
    unfolding ev firstEncounter_append i2 v2 hasName_dom [OF v3] by simp
  have d: "dom (cvNames st') = dom (cvNames st) \<union> eventVals (groupsEvents node (grp # grps))"
    unfolding ev i3 v3 by auto
  show ?case
    unfolding f using i1 o d map_le_trans [OF v4 i4] by (intro conjI)
qed

lemma filter_eq_single:
  "distinct zs \<Longrightarrow> inj_on f (set zs) \<Longrightarrow> k \<in> set zs \<Longrightarrow> filter (\<lambda>x. f k = f x) zs = [k]"
proof (induction zs)
  case Nil
  then show ?case by simp
next
  case (Cons z zs)
  show ?case
  proof (cases "k = z")
    case True
    have "\<And>x. x \<in> set zs \<Longrightarrow> f z \<noteq> f x"
      using Cons.prems(1,2) by (auto simp: inj_on_def)
    then have "filter (\<lambda>x. f z = f x) zs = []" by (simp add: filter_empty_conv)
    then show ?thesis using True by simp
  next
    case False
    then have kz: "k \<in> set zs" using Cons.prems(3) by simp
    have "f k \<noteq> f z" using Cons.prems(2,3) False by (auto simp: inj_on_def)
    moreover have "filter (\<lambda>x. f k = f x) zs = [k]"
      using Cons.IH kz Cons.prems(1,2) by simp
    ultimately show ?thesis by simp
  qed
qed

lemma idOf_keys:
  assumes "distinct (map fst outs)"
  shows "map (idOf outs) (map fst outs) = map snd outs"
proof -
  have "\<And>p. p \<in> set outs \<Longrightarrow> idOf outs (fst p) = snd p"
  proof -
    fix p assume p: "p \<in> set outs"
    obtain a b where ab: "p = (a, b)" by (cases p)
    have "map_of outs a = Some b"
      using assms p ab by (simp add: map_of_eq_Some_iff)
    then show "idOf outs (fst p) = snd p" by (simp add: idOf_def ab)
  qed
  then show ?thesis by simp
qed

lemma sortedResult_insertion_order:
  assumes "distinct (map fst outs)" and "map snd outs = [0 ..< n]"
  shows "sortedResult getAsOpaquePointer outs = map fst outs"
proof -
  let ?xs = "map fst outs"
  let ?ys = "sort_key getAsOpaquePointer ?xs"
  have ids: "map (idOf outs) ?xs = [0 ..< n]"
    using idOf_keys [OF assms(1)] assms(2) by simp
  have "distinct (map (idOf outs) ?xs)" unfolding ids by simp
  then have inj: "inj_on (idOf outs) (set ?xs)"
    unfolding distinct_map [of "idOf outs" ?xs] by (rule conjunct2)
  have srt: "sorted (map (idOf outs) ?xs)" unfolding ids by simp
  have ms: "mset ?xs = mset ?ys" by simp
  have dy: "distinct ?ys" using assms(1) by simp
  have sy: "set ?ys = set ?xs" by simp
  have flt: "\<And>k. k \<in> set ?xs \<Longrightarrow>
      filter (\<lambda>x. idOf outs k = idOf outs x) ?xs = filter (\<lambda>x. idOf outs k = idOf outs x) ?ys"
  proof -
    fix k assume k: "k \<in> set ?xs"
    have "filter (\<lambda>x. idOf outs k = idOf outs x) ?xs = [k]"
      using filter_eq_single [OF assms(1) inj k] .
    moreover have "filter (\<lambda>x. idOf outs k = idOf outs x) ?ys = [k]"
      using filter_eq_single [OF dy, of "idOf outs" k] inj k sy by simp
    ultimately show "filter (\<lambda>x. idOf outs k = idOf outs x) ?xs =
        filter (\<lambda>x. idOf outs k = idOf outs x) ?ys" by simp
  qed
  have "sort_key (idOf outs) ?ys = ?xs"
    by (rule properties_for_sort_key [OF ms flt srt])
  then show ?thesis by (simp add: sortedResult_def)
qed

lemma firstEncounter_no_memref:
  "(\<forall>e \<in> set events. fst e = None) \<Longrightarrow> firstEncounter named events = []"
  by (induction events arbitrary: named) auto

lemma firstEncounter_unnamed:
  "v \<in> set (firstEncounter named events) \<Longrightarrow> \<not> named v"
proof (induction events arbitrary: named)
  case Nil
  then show ?case by simp
next
  case (Cons e events)
  obtain mem results where e: "e = (mem, results)" by (cases e)
  from Cons.prems e have
    "v \<in> set (case mem of None \<Rightarrow> [] | Some m \<Rightarrow> if named m then [] else [m])
     \<or> v \<in> set (firstEncounter (\<lambda>v. named v \<or> Some v = mem \<or> v \<in> set results) events)"
    by simp
  then show ?case
  proof
    assume "v \<in> set (case mem of None \<Rightarrow> [] | Some m \<Rightarrow> if named m then [] else [m])"
    then show ?thesis by (cases mem) (auto split: if_splits)
  next
    assume "v \<in> set (firstEncounter (\<lambda>v. named v \<or> Some v = mem \<or> v \<in> set results) events)"
    from Cons.IH [OF this] show ?thesis by simp
  qed
qed

lemma no_memref_selectors:
  "\<forall>operation e. forOps operation = Some e \<longrightarrow> fst e = None"
  "\<forall>operation e. applyOps operation = Some e \<longrightarrow> fst e = None"
  "\<forall>operation e. allocOps operation = Some e \<longrightarrow> fst e = None"
  "\<forall>operation e. constantIndexOps operation = Some e \<longrightarrow> fst e = None"
  "\<forall>operation e. constantFloatOps operation = Some e \<longrightarrow> fst e = None"
  "\<forall>operation e. constantIntOps operation = Some e \<longrightarrow> fst e = None"
  "\<forall>operation e. mulOps operation = Some e \<longrightarrow> fst e = None"
  "\<forall>operation e. addOps operation = Some e \<longrightarrow> fst e = None"
  "\<forall>operation e. maxOps operation = Some e \<longrightarrow> fst e = None"
  "\<forall>operation e. subOps operation = Some e \<longrightarrow> fst e = None"
  "\<forall>operation e. divOps operation = Some e \<longrightarrow> fst e = None"
  "\<forall>operation e. expOps operation = Some e \<longrightarrow> fst e = None"
  "\<forall>operation e. powOps operation = Some e \<longrightarrow> fst e = None"
  "\<forall>operation e. cmpOps operation = Some e \<longrightarrow> fst e = None"
  "\<forall>operation e. tanhOps operation = Some e \<longrightarrow> fst e = None"
  "\<forall>operation e. sqrtOps operation = Some e \<longrightarrow> fst e = None"
  "\<forall>operation e. logOps operation = Some e \<longrightarrow> fst e = None"
  "\<forall>operation e. bitcastOps operation = Some e \<longrightarrow> fst e = None"
  "\<forall>operation e. shuffleOps operation = Some e \<longrightarrow> fst e = None"
  by (auto simp: forOps_def applyOps_def allocOps_def constantIndexOps_def constantFloatOps_def constantIntOps_def mulOps_def addOps_def maxOps_def subOps_def divOps_def expOps_def powOps_def cmpOps_def tanhOps_def sqrtOps_def logOps_def bitcastOps_def shuffleOps_def split: op.splits)

lemma map_filter_no_memref:
  assumes "\<forall>operation e. sel operation = Some e \<longrightarrow> fst e = None"
  shows "\<forall>e \<in> set (List.map_filter sel ops). fst e = None"
proof
  fix e assume "e \<in> set (List.map_filter sel ops)"
  then obtain operation where "sel operation = Some e"
    by (auto simp: List.map_filter_def)
  then show "fst e = None" using assms by blast
qed

lemma namingGroups_no_memref: "\<forall>e \<in> set (groupsEvents node namingGroups). fst e = None"
  using no_memref_selectors(1-3) [THEN map_filter_no_memref, of "walk node"]
  by (simp add: groupsEvents_def namingGroups_def selsEvents_def ball_Un)

lemma resultGroups_no_memref: "\<forall>e \<in> set (groupsEvents node resultGroups). fst e = None"
  using no_memref_selectors(4-19) [THEN map_filter_no_memref, of "walk node"]
  by (simp add: groupsEvents_def resultGroups_def selsEvents_def ball_Un)

lemma scanGroups_events: "groupsEvents node scanGroups = scanOrder node"
  by (simp add: groupsEvents_def scanGroups_def selsEvents_def scanOrder_def)

lemma storeName_le: "vm \<subseteq>\<^sub>m (storeName v name vm)"
  by (auto simp: storeName_eq map_le_def)

lemma storeName_dom: "dom ((storeName v name vm)) = insert v (dom vm)"
  by (auto simp: storeName_eq)

lemma nameIVs_indices:
  assumes "forEachE (\<lambda>i vm.
         if length operands - i - 1 < length int3str then
           Inr ((storeName (operands ! i) (prefix @ int3str ! (length operands - i - 1)) vm))
         else Inl UndefinedBehaviour) js vm = Inr vm'"
  shows "vm \<subseteq>\<^sub>m vm' \<and> dom vm' = dom vm \<union> (\<lambda>j. operands ! j) ` set js
       \<and> (\<forall>j \<in> set js. length operands - j - 1 < 3)
       \<and> (\<forall>j \<in> set js. vm (operands ! j) = None \<and>
              (\<forall>j' \<in> set js. operands ! j' = operands ! j \<longrightarrow> j' = j) \<longrightarrow>
              vm' (operands ! j) = Some (prefix @ int3str ! (length operands - j - 1)))"
  using assms
proof (induction js arbitrary: vm)
  case Nil
  then show ?case by simp
next
  case (Cons a js)
  let ?name = "\<lambda>j. prefix @ int3str ! (length operands - j - 1)"
  let ?vm1 = "(storeName (operands ! a) (?name a) vm)"
  have b: "length operands - a - 1 < length int3str"
    using Cons.prems by (auto split: if_splits)
  then have b3: "length operands - a - 1 < 3" by (simp add: int3str_def)
  have r: "forEachE (\<lambda>i vm.
         if length operands - i - 1 < length int3str then
           Inr ((storeName (operands ! i) (prefix @ int3str ! (length operands - i - 1)) vm))
         else Inl UndefinedBehaviour) js ?vm1 = Inr vm'"
    using Cons.prems b by simp
  note ih = Cons.IH [OF r]
  have i1: "?vm1 \<subseteq>\<^sub>m vm'"
    and i2: "dom vm' = dom ?vm1 \<union> (\<lambda>j. operands ! j) ` set js"
    and i3: "\<forall>j \<in> set js. length operands - j - 1 < 3"
    and i4: "\<forall>j \<in> set js. ?vm1 (operands ! j) = None \<and>
              (\<forall>j' \<in> set js. operands ! j' = operands ! j \<longrightarrow> j' = j) \<longrightarrow>
              vm' (operands ! j) = Some (?name j)"
    using ih by (rule conjunct1, rule conjunct2 [THEN conjunct1],
      rule conjunct2 [THEN conjunct2, THEN conjunct1], rule conjunct2 [THEN conjunct2, THEN conjunct2])
  have m: "vm \<subseteq>\<^sub>m vm'"
    using map_le_trans [OF storeName_le i1] .
  have d: "dom vm' = dom vm \<union> (\<lambda>j. operands ! j) ` set (a # js)"
    unfolding i2 storeName_dom by auto
  have bd: "\<forall>j \<in> set (a # js). length operands - j - 1 < 3"
    using b3 i3 by simp
  have nm: "\<forall>j \<in> set (a # js). vm (operands ! j) = None \<and>
              (\<forall>j' \<in> set (a # js). operands ! j' = operands ! j \<longrightarrow> j' = j) \<longrightarrow>
              vm' (operands ! j) = Some (?name j)"
  proof (intro ballI impI)
    fix j assume j: "j \<in> set (a # js)"
      and h: "vm (operands ! j) = None \<and>
              (\<forall>j' \<in> set (a # js). operands ! j' = operands ! j \<longrightarrow> j' = j)"
    show "vm' (operands ! j) = Some (?name j)"
    proof (cases "j = a")
      case True
      have "?vm1 (operands ! a) = Some (?name a)"
        using h True by (simp add: storeName_eq)
      then show ?thesis using i1 True by (auto simp: map_le_def dom_def)
    next
      case False
      then have js: "j \<in> set js" using j by simp
      have ne: "operands ! a \<noteq> operands ! j" using h False by auto
      then have "?vm1 (operands ! j) = None"
        using h by (simp add: storeName_eq)
      moreover have "\<forall>j' \<in> set js. operands ! j' = operands ! j \<longrightarrow> j' = j"
        using h by simp
      ultimately show ?thesis using i4 js by blast
    qed
  qed
  show ?case using m d bd nm by (intro conjI)
qed

lemma nameIVs_effect:
  assumes "nameIVsRet prefix ivs vm = Inr vm'"
  shows "vm \<subseteq>\<^sub>m vm' \<and> dom vm' = dom vm \<union> set ivs \<and> length ivs \<le> 3
       \<and> (distinct ivs \<and> (\<forall>v \<in> set ivs. vm v = None) \<longrightarrow>
            (\<forall>i < length ivs. vm' (ivs ! i) = Some (prefix @ int3str ! (length ivs - i - 1))))"
proof -
  note ih = nameIVs_indices [OF assms [unfolded nameIVsRet_def]]
  have i1: "vm \<subseteq>\<^sub>m vm'"
    and i2: "dom vm' = dom vm \<union> (\<lambda>j. ivs ! j) ` set [0 ..< length ivs]"
    and i3: "\<forall>j \<in> set [0 ..< length ivs]. length ivs - j - 1 < 3"
    and i4: "\<forall>j \<in> set [0 ..< length ivs]. vm (ivs ! j) = None \<and>
              (\<forall>j' \<in> set [0 ..< length ivs]. ivs ! j' = ivs ! j \<longrightarrow> j' = j) \<longrightarrow>
              vm' (ivs ! j) = Some (prefix @ int3str ! (length ivs - j - 1))"
    using ih by (rule conjunct1, rule conjunct2 [THEN conjunct1],
      rule conjunct2 [THEN conjunct2, THEN conjunct1], rule conjunct2 [THEN conjunct2, THEN conjunct2])
  have im: "(\<lambda>j. ivs ! j) ` set [0 ..< length ivs] = set ivs"
  proof -
    have "(\<lambda>j. ivs ! j) ` {0 ..< length ivs} = set (take (length ivs) ivs)"
      by (rule nth_image) simp
    then show ?thesis by simp
  qed
  have len: "length ivs \<le> 3"
  proof (cases "ivs = []")
    case True
    then show ?thesis by simp
  next
    case False
    then have "0 \<in> set [0 ..< length ivs]" by simp
    then have "length ivs - 0 - 1 < 3" using i3 by blast
    then show ?thesis by simp
  qed
  have nm: "distinct ivs \<and> (\<forall>v \<in> set ivs. vm v = None) \<longrightarrow>
            (\<forall>i < length ivs. vm' (ivs ! i) = Some (prefix @ int3str ! (length ivs - i - 1)))"
  proof (intro impI allI)
    fix i assume h: "distinct ivs \<and> (\<forall>v \<in> set ivs. vm v = None)" and i: "i < length ivs"
    have "vm (ivs ! i) = None" using h i by simp
    moreover have "\<forall>j' \<in> set [0 ..< length ivs]. ivs ! j' = ivs ! i \<longrightarrow> j' = i"
      using h i by (simp add: nth_eq_iff_index_eq)
    moreover have "i \<in> set [0 ..< length ivs]" using i by simp
    ultimately show "vm' (ivs ! i) = Some (prefix @ int3str ! (length ivs - i - 1))"
      using i4 by blast
  qed
  show ?thesis using i1 i2 len nm unfolding im by (intro conjI)
qed


lemma parallelCallback_effect:
  assumes "(case p of
           AffineParallelOp operands body \<Rightarrow>
             nameIVsRet (if p = node then ''blockIdx.'' else ''threadIdx.'') operands vm
         | _ \<Rightarrow> Inr vm) = Inr vm1"
  shows "vm \<subseteq>\<^sub>m vm1 \<and> dom vm1 = dom vm \<union> set (getIVs p) \<and> length (getIVs p) \<le> 3
       \<and> (distinct (getIVs p) \<and> (\<forall>v \<in> set (getIVs p). vm v = None) \<longrightarrow>
            (\<forall>i < length (getIVs p). vm1 (getIVs p ! i) =
               Some ((if p = node then ''blockIdx.'' else ''threadIdx.'') @
                     int3str ! (length (getIVs p) - i - 1))))"
proof (cases "isParallelOp p")
  case True
  then obtain ivs body where p: "p = AffineParallelOp ivs body"
    by (cases p) (simp_all add: isParallelOp_def)
  have g: "getIVs p = ivs" by (simp add: p getIVs_def)
  have "nameIVsRet (if p = node then ''blockIdx.'' else ''threadIdx.'') ivs vm = Inr vm1"
    using assms unfolding p by simp
  from nameIVs_effect [OF this] show ?thesis unfolding g .
next
  case False
  then have g: "getIVs p = []" by (cases p) (simp_all add: isParallelOp_def getIVs_def)
  have "vm1 = vm" using assms False by (cases p) (simp_all add: isParallelOp_def)
  then show ?thesis by (simp add: g)
qed

lemma parallelWalk_list:
  assumes "forEachE (\<lambda>parallelOp vm.
         case parallelOp of
           AffineParallelOp operands body \<Rightarrow>
             nameIVsRet (if parallelOp = node then ''blockIdx.'' else ''threadIdx.'') operands vm
         | _ \<Rightarrow> Inr vm) ps vm = Inr vm'"
  shows "vm \<subseteq>\<^sub>m vm' \<and> dom vm' = dom vm \<union> set (concat (map getIVs ps))
       \<and> (\<forall>p \<in> set ps. length (getIVs p) \<le> 3)
       \<and> (distinct (concat (map getIVs ps)) \<and> (\<forall>v \<in> set (concat (map getIVs ps)). vm v = None) \<longrightarrow>
            (\<forall>p \<in> set ps. \<forall>i < length (getIVs p). vm' (getIVs p ! i) =
               Some ((if p = node then ''blockIdx.'' else ''threadIdx.'') @
                     int3str ! (length (getIVs p) - i - 1))))"
  using assms
proof (induction ps arbitrary: vm)
  case Nil
  then show ?case by simp
next
  case (Cons p ps)
  let ?cb = "\<lambda>parallelOp vm.
         case parallelOp of
           AffineParallelOp operands body \<Rightarrow>
             nameIVsRet (if parallelOp = node then ''blockIdx.'' else ''threadIdx.'') operands vm
         | _ \<Rightarrow> Inr vm"
  let ?name = "\<lambda>p i. (if p = node then ''blockIdx.'' else ''threadIdx.'') @
                     int3str ! (length (getIVs p) - i - 1)"
  obtain vm1 where c: "?cb p vm = Inr vm1" and r: "forEachE ?cb ps vm1 = Inr vm'"
    using Cons.prems by (cases "?cb p vm") simp_all
  note ce = parallelCallback_effect [OF c]
  have c1: "vm \<subseteq>\<^sub>m vm1" and c2: "dom vm1 = dom vm \<union> set (getIVs p)"
    and c3: "length (getIVs p) \<le> 3"
    and c4: "distinct (getIVs p) \<and> (\<forall>v \<in> set (getIVs p). vm v = None) \<longrightarrow>
            (\<forall>i < length (getIVs p). vm1 (getIVs p ! i) = Some (?name p i))"
    using ce by (rule conjunct1, rule conjunct2 [THEN conjunct1],
      rule conjunct2 [THEN conjunct2, THEN conjunct1], rule conjunct2 [THEN conjunct2, THEN conjunct2])
  note ih = Cons.IH [OF r]
  have i1: "vm1 \<subseteq>\<^sub>m vm'" and i2: "dom vm' = dom vm1 \<union> set (concat (map getIVs ps))"
    and i3: "\<forall>p \<in> set ps. length (getIVs p) \<le> 3"
    and i4: "distinct (concat (map getIVs ps)) \<and> (\<forall>v \<in> set (concat (map getIVs ps)). vm1 v = None) \<longrightarrow>
            (\<forall>p \<in> set ps. \<forall>i < length (getIVs p). vm' (getIVs p ! i) = Some (?name p i))"
    using ih by (rule conjunct1, rule conjunct2 [THEN conjunct1],
      rule conjunct2 [THEN conjunct2, THEN conjunct1], rule conjunct2 [THEN conjunct2, THEN conjunct2])
  have m: "vm \<subseteq>\<^sub>m vm'" using map_le_trans [OF c1 i1] .
  have d: "dom vm' = dom vm \<union> set (concat (map getIVs (p # ps)))"
    unfolding i2 c2 by auto
  have b: "\<forall>q \<in> set (p # ps). length (getIVs q) \<le> 3" using c3 i3 by simp
  have nm: "distinct (concat (map getIVs (p # ps))) \<and>
            (\<forall>v \<in> set (concat (map getIVs (p # ps))). vm v = None) \<longrightarrow>
            (\<forall>q \<in> set (p # ps). \<forall>i < length (getIVs q). vm' (getIVs q ! i) = Some (?name q i))"
  proof (intro impI ballI allI)
    fix q i
    assume h: "distinct (concat (map getIVs (p # ps))) \<and>
            (\<forall>v \<in> set (concat (map getIVs (p # ps))). vm v = None)"
      and q: "q \<in> set (p # ps)" and i: "i < length (getIVs q)"
    have dp: "distinct (getIVs p)" and dps: "distinct (concat (map getIVs ps))"
      and dj: "set (getIVs p) \<inter> set (concat (map getIVs ps)) = {}"
      using h by simp_all
    have fp: "\<forall>v \<in> set (getIVs p). vm v = None" using h by simp
    have fps: "\<forall>v \<in> set (concat (map getIVs ps)). vm1 v = None"
    proof
      fix v assume v: "v \<in> set (concat (map getIVs ps))"
      then have "vm v = None" using h by simp
      moreover have "v \<notin> set (getIVs p)" using dj v by blast
      ultimately have "v \<notin> dom vm1" unfolding c2 by (simp add: dom_def)
      then show "vm1 v = None" by (simp add: dom_def)
    qed
    have first: "\<forall>i < length (getIVs p). vm' (getIVs p ! i) = Some (?name p i)"
    proof (intro allI impI)
      fix k assume "k < length (getIVs p)"
      then have "vm1 (getIVs p ! k) = Some (?name p k)" using c4 dp fp by blast
      then show "vm' (getIVs p ! k) = Some (?name p k)"
        using i1 by (auto simp: map_le_def dom_def)
    qed
    have rest: "\<forall>p \<in> set ps. \<forall>i < length (getIVs p). vm' (getIVs p ! i) = Some (?name p i)"
      using i4 dps fps by blast
    show "vm' (getIVs q ! i) = Some (?name q i)"
    proof (cases "q = p")
      case True
      then show ?thesis using first i by simp
    next
      case False
      then have "q \<in> set ps" using q by simp
      then show ?thesis using rest i by blast
    qed
  qed
  show ?case using m d b nm by (intro conjI)
qed

lemma walk_children_size:
  assumes "p \<in> set (concat (map walk body))"
    and "\<And>x q. x \<in> set body \<Longrightarrow> q \<in> set (walk x) \<Longrightarrow> size q \<le> size x"
  shows "size p \<le> size_list size body"
proof -
  from assms(1) obtain x where x: "x \<in> set body" and p: "p \<in> set (walk x)" by auto
  have "size p \<le> size x" using assms(2) [OF x p] .
  then show ?thesis using size_list_estimation' [OF x] by blast
qed

lemma walk_size: "p \<in> set (walk n) \<Longrightarrow> size p \<le> size n"
proof (induction n arbitrary: p rule: walk.induct)
  case (1 cs operands thenOps elseOps)
  from "1.prems" consider "p = AffineIfOp cs operands thenOps elseOps"
    | "p \<in> set (concat (map walk thenOps))" | "p \<in> set (concat (map walk elseOps))"
    by auto
  then show ?case
  proof cases
    case 1
    then show ?thesis by simp
  next
    case 2
    have "size p \<le> size_list size thenOps"
      using walk_children_size [OF 2] "1.IH"(1) by blast
    then show ?thesis by simp
  next
    case 3
    have "size p \<le> size_list size elseOps"
      using walk_children_size [OF 3] "1.IH"(2) by blast
    then show ?thesis by simp
  qed
next
  case (2 iv lb ub step attr body)
  from "2.prems" consider "p = AffineForOp iv lb ub step attr body"
    | "p \<in> set (concat (map walk body))"
    by auto
  then show ?case
  proof cases
    case 1
    then show ?thesis by simp
  next
    case 2
    have "size p \<le> size_list size body"
      using walk_children_size [OF 2] "2.IH" by blast
    then show ?thesis by simp
  qed
next
  case (3 ivs body)
  from "3.prems" consider "p = AffineParallelOp ivs body"
    | "p \<in> set (concat (map walk body))"
    by auto
  then show ?case
  proof cases
    case 1
    then show ?thesis by simp
  next
    case 2
    have "size p \<le> size_list size body"
      using walk_children_size [OF 2] "3.IH" by blast
    then show ?thesis by simp
  qed
qed simp_all

lemma nested_not_node:
  assumes "p \<in> set (concat (map walk body))"
  shows "p \<noteq> AffineParallelOp ivs body"
proof -
  have "size p \<le> size_list size body"
    using walk_children_size [OF assms] walk_size by blast
  then have "size p < size (AffineParallelOp ivs body)" by simp
  then show ?thesis by blast
qed

lemma eventVals_map_filter_Cons:
  "eventVals (List.map_filter sel (x # xs)) = selVals sel x \<union> eventVals (List.map_filter sel xs)"
  by (simp add: List.map_filter_simps selVals_def split: option.splits)

lemma namedFirstOf_vals:
  "set (namedFirstOf operation) =
     set (getIVs operation) \<union> selVals forOps operation \<union> selVals applyOps operation
       \<union> selVals allocOps operation"
  by (cases operation)
    (simp_all add: namedFirstOf_def getIVs_def selVals_def forOps_def applyOps_def allocOps_def)

lemma namedFirst_ops:
  "set (concat (map namedFirstOf ops)) =
   set (concat (map getIVs ops)) \<union> eventVals (List.map_filter forOps ops)
     \<union> eventVals (List.map_filter applyOps ops) \<union> eventVals (List.map_filter allocOps ops)"
proof (induction ops)
  case Nil
  then show ?case by (simp add: List.map_filter_simps)
next
  case (Cons operation ops)
  have "set (concat (map namedFirstOf (operation # ops))) =
        set (namedFirstOf operation) \<union> set (concat (map namedFirstOf ops))" by simp
  also have "\<dots> = (set (getIVs operation) \<union> selVals forOps operation \<union> selVals applyOps operation
       \<union> selVals allocOps operation) \<union>
     (set (concat (map getIVs ops)) \<union> eventVals (List.map_filter forOps ops)
     \<union> eventVals (List.map_filter applyOps ops) \<union> eventVals (List.map_filter allocOps ops))"
    unfolding namedFirstOf_vals Cons.IH by (rule refl)
  also have "\<dots> = set (concat (map getIVs (operation # ops)))
     \<union> eventVals (List.map_filter forOps (operation # ops))
     \<union> eventVals (List.map_filter applyOps (operation # ops))
     \<union> eventVals (List.map_filter allocOps (operation # ops))"
    unfolding eventVals_map_filter_Cons by auto
  finally show ?case .
qed

lemma namedFirst_set:
  "set (namedFirst node) =
     set (parallelIVs node) \<union> eventVals (groupsEvents node namingGroups)"
  unfolding namedFirst_def parallelIVs_def namedFirst_ops
  by (simp add: groupsEvents_def namingGroups_def selsEvents_def Un_ac)

lemma collectVarsRet_char:
  assumes "collectVarsRet getAsOpaquePointer node (vm, vc) = Inr (outsideVars, vm', vc')"
  shows "\<exists>vm1. parallelWalkRet node vm = Inr vm1 \<and> vm1 \<subseteq>\<^sub>m vm'
         \<and> outsideVars =
             firstEncounter (\<lambda>v. hasName vm v \<or> v \<in> set (namedFirst node)) (scanOrder node)"
proof -
  obtain vm1 where pw: "parallelWalkRet node vm = Inr vm1"
    using assms by (cases "parallelWalkRet node vm") (simp_all add: collectVarsRet_def)
  define st0 where "st0 = \<lparr>cvNames = vm1, cvVarCounter = vc, outsidesVars = [], cvId = 0\<rparr>"
  define st1 where "st1 = fold (\<lambda>grp. walkGroupRet grp node) namingGroups st0"
  define st2 where "st2 = fold (\<lambda>grp. walkGroupRet grp node) scanGroups st1"
  define st3 where "st3 = fold (\<lambda>grp. walkGroupRet grp node) resultGroups st2"
  have res: "outsideVars = sortedResult getAsOpaquePointer (outsidesVars st3)" and vm': "vm' = cvNames st3"
    using assms pw
    by (simp_all add: collectVarsRet_def Let_def beforeScanRet_def st0_def st1_def st2_def st3_def)
  have inv0: "cvInv st0" by (simp add: cvInv_def st0_def)
  note g1 = groups_effect [OF inv0, of node namingGroups, folded st1_def]
  have inv1: "cvInv st1" using g1 by (rule conjunct1)
  have o1: "map fst (outsidesVars st1) = []"
    using g1 [THEN conjunct2, THEN conjunct1]
    by (simp add: firstEncounter_no_memref [OF namingGroups_no_memref] st0_def)
  have d1: "dom (cvNames st1) = dom vm1 \<union> eventVals (groupsEvents node namingGroups)"
    using g1 [THEN conjunct2, THEN conjunct2, THEN conjunct1] by (simp add: st0_def)
  have m1: "vm1 \<subseteq>\<^sub>m cvNames st1"
    using g1 [THEN conjunct2, THEN conjunct2, THEN conjunct2] by (simp add: st0_def)
  note g2 = groups_effect [OF inv1, of node scanGroups, folded st2_def]
  have inv2: "cvInv st2" using g2 by (rule conjunct1)
  have o2: "map fst (outsidesVars st2) = firstEncounter (hasName (cvNames st1)) (scanOrder node)"
    using g2 [THEN conjunct2, THEN conjunct1] by (simp add: o1 scanGroups_events)
  have m2: "cvNames st1 \<subseteq>\<^sub>m cvNames st2"
    using g2 [THEN conjunct2, THEN conjunct2, THEN conjunct2] .
  note g3 = groups_effect [OF inv2, of node resultGroups, folded st3_def]
  have inv3: "cvInv st3" using g3 by (rule conjunct1)
  have o3: "map fst (outsidesVars st3) = map fst (outsidesVars st2)"
    using g3 [THEN conjunct2, THEN conjunct1]
    by (simp add: firstEncounter_no_memref [OF resultGroups_no_memref])
  have m3: "cvNames st2 \<subseteq>\<^sub>m cvNames st3"
    using g3 [THEN conjunct2, THEN conjunct2, THEN conjunct2] .
  have srt: "sortedResult getAsOpaquePointer (outsidesVars st3) = map fst (outsidesVars st3)"
    using inv3 sortedResult_insertion_order [of "outsidesVars st3" "cvId st3"]
    by (simp add: cvInv_def)
  have dvm1: "dom vm1 = dom vm \<union> set (parallelIVs node)"
    using parallelWalk_list [OF pw [unfolded parallelWalkRet_def], THEN conjunct2, THEN conjunct1]
    by (simp add: parallelIVs_def)
  have "dom (cvNames st1) = dom vm \<union> set (namedFirst node)"
    unfolding d1 dvm1 namedFirst_set by auto
  then have hn: "hasName (cvNames st1) = (\<lambda>v. hasName vm v \<or> v \<in> set (namedFirst node))"
    by (rule hasName_dom)
  have "outsideVars =
      firstEncounter (\<lambda>v. hasName vm v \<or> v \<in> set (namedFirst node)) (scanOrder node)"
    unfolding res srt o3 o2 hn by (rule refl)
  moreover have "vm1 \<subseteq>\<^sub>m vm'"
    unfolding vm' using map_le_trans [OF m1 map_le_trans [OF m2 m3]] .
  ultimately show ?thesis using pw by (intro exI [of _ vm1] conjI)
qed

lemma nameIVs_indices_returns:
  "\<forall>j \<in> set js. length operands - j - 1 < 3 \<Longrightarrow>
   \<exists>vm'. forEachE (\<lambda>i vm.
         if length operands - i - 1 < length int3str then
           Inr ((storeName (operands ! i) (prefix @ int3str ! (length operands - i - 1)) vm))
         else Inl UndefinedBehaviour) js vm = Inr vm'"
proof (induction js arbitrary: vm)
  case Nil
  then show ?case by simp
next
  case (Cons a js)
  have "length operands - a - 1 < length int3str" using Cons.prems by (simp add: int3str_def)
  moreover have "\<forall>j \<in> set js. length operands - j - 1 < 3" using Cons.prems by simp
  ultimately show ?case using Cons.IH by simp
qed

lemma nameIVsRet_returns:
  assumes "length ivs \<le> 3"
  shows "\<exists>vm'. nameIVsRet prefix ivs vm = Inr vm'"
proof -
  have "\<forall>j \<in> set [0 ..< length ivs]. length ivs - j - 1 < 3" using assms by auto
  from nameIVs_indices_returns [OF this] show ?thesis unfolding nameIVsRet_def .
qed

lemma parallelWalk_list_returns:
  "\<forall>p \<in> set ps. length (getIVs p) \<le> 3 \<Longrightarrow>
   \<exists>vm'. forEachE (\<lambda>parallelOp vm.
         case parallelOp of
           AffineParallelOp operands body \<Rightarrow>
             nameIVsRet (if parallelOp = node then ''blockIdx.'' else ''threadIdx.'') operands vm
         | _ \<Rightarrow> Inr vm) ps vm = Inr vm'"
proof (induction ps arbitrary: vm)
  case Nil
  then show ?case by simp
next
  case (Cons p ps)
  let ?cb = "\<lambda>parallelOp vm.
         case parallelOp of
           AffineParallelOp operands body \<Rightarrow>
             nameIVsRet (if parallelOp = node then ''blockIdx.'' else ''threadIdx.'') operands vm
         | _ \<Rightarrow> Inr vm"
  have "\<exists>vm1. ?cb p vm = Inr vm1"
  proof (cases "isParallelOp p")
    case True
    then obtain ivs body where p: "p = AffineParallelOp ivs body"
      by (cases p) (simp_all add: isParallelOp_def)
    have "length ivs \<le> 3" using Cons.prems by (simp add: p getIVs_def)
    from nameIVsRet_returns [OF this] show ?thesis unfolding p by simp
  next
    case False
    then show ?thesis by (cases p) (simp_all add: isParallelOp_def)
  qed
  then obtain vm1 where c: "?cb p vm = Inr vm1" by blast
  have "\<forall>p \<in> set ps. length (getIVs p) \<le> 3" using Cons.prems by simp
  from Cons.IH [OF this, of vm1] obtain vm' where "forEachE ?cb ps vm1 = Inr vm'" by blast
  then show ?case using c by simp
qed

lemma collectVarsRet_returns:
  assumes "\<forall>p \<in> set (walk node). length (getIVs p) \<le> 3"
  shows "\<exists>outsideVars vm' vc'. collectVarsRet getAsOpaquePointer node (vm, vc) = Inr (outsideVars, vm', vc')"
proof -
  from parallelWalk_list_returns [OF assms, of node vm]
  obtain vm1 where "parallelWalkRet node vm = Inr vm1" unfolding parallelWalkRet_def by blast
  then show ?thesis by (simp add: collectVarsRet_def Let_def)
qed

subsection \<open>The pass and what it leaves when it returns\<close>

lemma bindE_eq_Inr: "bindE m f = Inr y \<longleftrightarrow> (\<exists>x. m = Inr x \<and> f x = Inr y)"
  by (cases m) simp_all

lemma forEachE_fold: "forEachE (\<lambda>x s. Inr (g x s)) xs s = Inr (fold g xs s)"
  by (induction xs arbitrary: s) simp_all

lemma forEachE_mono:
  assumes "\<And>x s s'. f x s = Inr s' \<Longrightarrow> g x s = Inr s'"
    and "forEachE f xs s = Inr s'"
  shows "forEachE g xs s = Inr s'"
  using assms(2)
proof (induction xs arbitrary: s)
  case Nil
  then show ?case by simp
next
  case (Cons x xs)
  from Cons.prems obtain s1 where f: "f x s = Inr s1" and r: "forEachE f xs s1 = Inr s'"
    by (auto simp: bindE_eq_Inr)
  show ?case using assms(1) [OF f] Cons.IH [OF r] by simp
qed

lemma forEachE_same:
  assumes "\<And>x s. f x s = g x s"
  shows "forEachE f xs s = forEachE g xs s"
proof -
  have "f = g" using assms by (intro ext)
  then show ?thesis by simp
qed

lemma forEachE_returned:
  assumes "\<And>x s s'. f x s = Inr s' \<Longrightarrow> s' = g x s"
    and "forEachE f xs s = Inr s'"
  shows "s' = fold g xs s"
proof -
  have "forEachE (\<lambda>x s. Inr (g x s)) xs s = Inr s'"
  proof (rule forEachE_mono [OF _ assms(2)])
    fix x s s' assume "f x s = Inr s'"
    from assms(1) [OF this] show "Inr (g x s) = Inr s'" by simp
  qed
  then show ?thesis by (simp add: forEachE_fold)
qed

lemma forEachE_returnsAtEnd:
  assumes "\<And>x s. f x s = Inr (g x s)"
  shows "forEachE f xs s = Inr (fold g xs s)"
  using forEachE_same [of f "\<lambda>x s. Inr (g x s)" xs s] assms by (simp add: forEachE_fold)

lemma setValueName_returned:
  "setValueName returnsAtEnd v name vm = Inr (returned, vm') \<Longrightarrow> vm' = storeName v name vm"
  by (auto simp: setValueName_def storeName_def split: if_splits)

lemma setValueName_returnsAtEnd:
  "setValueName True v name vm
     = Inr (if vm v \<noteq> None then Some False else None, storeName v name vm)"
  by (simp add: setValueName_def storeName_def)

lemma nameResult_returned:
  "nameResult returnsAtEnd prefix suffix r cs = Inr cs' \<Longrightarrow> cs' = nameResultRet prefix suffix r cs"
  by (cases cs) (auto simp: nameResult_def nameResultRet_def bindE_eq_Inr dest: setValueName_returned)

lemma nameResult_returnsAtEnd:
  "nameResult True prefix suffix r cs = Inr (nameResultRet prefix suffix r cs)"
  by (cases cs) (simp add: nameResult_def nameResultRet_def setValueName_returnsAtEnd)

lemma captureMem_returned:
  "captureMem returnsAtEnd mem st = Inr st' \<Longrightarrow> st' = captureMemRet mem st"
  by (auto simp: captureMem_def captureMemRet_def bindE_eq_Inr split: if_splits
           dest: setValueName_returned)

lemma captureMem_returnsAtEnd:
  "captureMem True mem st = Inr (captureMemRet mem st)"
  by (simp add: captureMem_def captureMemRet_def setValueName_returnsAtEnd)

lemma visit_returned:
  assumes "visit returnsAtEnd prefix suffix mem results cs = Inr cs'"
  shows "cs' = visitRet prefix suffix mem results cs"
proof -
  obtain counter st where cs: "cs = (counter, st)" by (cases cs)
  from assms obtain st1 where
    c: "(case mem of None \<Rightarrow> Inr st | Some m \<Rightarrow> captureMem returnsAtEnd m st) = Inr st1"
    and n: "forEachE (nameResult returnsAtEnd prefix suffix) results (counter, st1) = Inr cs'"
    unfolding cs visit_def by (auto simp: bindE_eq_Inr)
  have "st1 = (case mem of None \<Rightarrow> st | Some m \<Rightarrow> captureMemRet m st)"
    using c by (cases mem) (auto dest: captureMem_returned)
  moreover have "cs' = fold (nameResultRet prefix suffix) results (counter, st1)"
    using forEachE_returned [OF nameResult_returned n] .
  ultimately show ?thesis by (simp add: cs visitRet_def)
qed

lemma visit_returnsAtEnd:
  "visit True prefix suffix mem results cs = Inr (visitRet prefix suffix mem results cs)"
proof -
  obtain counter st where cs: "cs = (counter, st)" by (cases cs)
  have "(case mem of None \<Rightarrow> Inr st | Some m \<Rightarrow> captureMem True m st)
          = Inr (case mem of None \<Rightarrow> st | Some m \<Rightarrow> captureMemRet m st)"
    by (cases mem) (simp_all add: captureMem_returnsAtEnd)
  then show ?thesis
    by (simp add: cs visit_def visitRet_def forEachE_returnsAtEnd [OF nameResult_returnsAtEnd])
qed

lemma walkPass_returned:
  assumes "walkPass returnsAtEnd sel prefix suffix node cs = Inr cs'"
  shows "cs' = walkPassRet sel prefix suffix node cs"
  unfolding walkPassRet_def
proof (rule forEachE_returned [OF _ assms [unfolded walkPass_def]])
  fix x s s'
  assume "(case sel x of None \<Rightarrow> Inr
           | Some (mem, results) \<Rightarrow> visit returnsAtEnd prefix suffix mem results) s = Inr s'"
  then show "s' = (case sel x of None \<Rightarrow> id
           | Some (mem, results) \<Rightarrow> visitRet prefix suffix mem results) s"
    by (auto split: option.splits dest: visit_returned)
qed

lemma walkPass_returnsAtEnd:
  "walkPass True sel prefix suffix node cs = Inr (walkPassRet sel prefix suffix node cs)"
  unfolding walkPass_def walkPassRet_def
  by (rule forEachE_returnsAtEnd) (auto split: option.splits simp: visit_returnsAtEnd)

lemma walkGroup_returned:
  assumes "walkGroup returnsAtEnd grp node st = Inr st'"
  shows "st' = walkGroupRet grp node st"
proof -
  obtain prefix suffix sels where g: "grp = (prefix, suffix, sels)" by (cases grp)
  from assms obtain cs where
    f: "forEachE (\<lambda>sel. walkPass returnsAtEnd sel prefix suffix node) sels (0, st) = Inr cs"
    and s: "st' = snd cs"
    unfolding g walkGroup_def by (auto simp: bindE_eq_Inr)
  have "cs = fold (\<lambda>sel. walkPassRet sel prefix suffix node) sels (0, st)"
    by (rule forEachE_returned [OF _ f]) (rule walkPass_returned)
  then show ?thesis by (simp add: g walkGroupRet_def s)
qed

lemma walkGroup_returnsAtEnd:
  "walkGroup True grp node st = Inr (walkGroupRet grp node st)"
proof -
  obtain prefix suffix sels where g: "grp = (prefix, suffix, sels)" by (cases grp)
  have "forEachE (\<lambda>sel. walkPass True sel prefix suffix node) sels (0, st)
          = Inr (fold (\<lambda>sel. walkPassRet sel prefix suffix node) sels (0, st))"
    by (rule forEachE_returnsAtEnd) (rule walkPass_returnsAtEnd)
  then show ?thesis by (simp add: g walkGroup_def walkGroupRet_def split: prod.splits)
qed

lemma walkGroups_returned:
  assumes "forEachE (\<lambda>grp. walkGroup returnsAtEnd grp node) grps st = Inr st'"
  shows "st' = fold (\<lambda>grp. walkGroupRet grp node) grps st"
  by (rule forEachE_returned [OF _ assms]) (rule walkGroup_returned)

lemma walkGroups_returnsAtEnd:
  "forEachE (\<lambda>grp. walkGroup True grp node) grps st = Inr (fold (\<lambda>grp. walkGroupRet grp node) grps st)"
  by (rule forEachE_returnsAtEnd) (rule walkGroup_returnsAtEnd)

lemma nameIVs_returned:
  assumes "nameIVs returnsAtEnd prefix operands vm = Inr vm'"
  shows "nameIVsRet prefix operands vm = Inr vm'"
  unfolding nameIVsRet_def
  by (rule forEachE_mono [OF _ assms [unfolded nameIVs_def]])
     (auto simp: bindE_eq_Inr split: if_splits dest: setValueName_returned)

lemma nameIVs_returnsAtEnd:
  "nameIVs True prefix operands vm = nameIVsRet prefix operands vm"
  unfolding nameIVs_def nameIVsRet_def
  by (rule forEachE_same) (simp add: setValueName_returnsAtEnd)

lemma parallelWalk_returned:
  assumes "parallelWalk returnsAtEnd node vm = Inr vm'"
  shows "parallelWalkRet node vm = Inr vm'"
  unfolding parallelWalkRet_def
  by (rule forEachE_mono [OF _ assms [unfolded parallelWalk_def]])
     (auto split: op.splits dest: nameIVs_returned)

lemma parallelWalk_returnsAtEnd:
  "parallelWalk True node vm = parallelWalkRet node vm"
  unfolding parallelWalk_def parallelWalkRet_def
  by (rule forEachE_same) (simp add: nameIVs_returnsAtEnd split: op.splits)

lemma collectVars_returned:
  assumes "collectVars returnsAtEnd getAsOpaquePointer node s = Inr r"
  shows "collectVarsRet getAsOpaquePointer node s = Inr r"
proof -
  obtain vm vc where s: "s = (vm, vc)" by (cases s)
  from assms obtain vm1 st1 st2 st3 where
    pw: "parallelWalk returnsAtEnd node vm = Inr vm1"
    and b: "forEachE (\<lambda>grp. walkGroup returnsAtEnd grp node) namingGroups
              \<lparr>cvNames = vm1, cvVarCounter = vc, outsidesVars = [], cvId = 0\<rparr> = Inr st1"
    and c: "forEachE (\<lambda>grp. walkGroup returnsAtEnd grp node) scanGroups st1 = Inr st2"
    and d: "forEachE (\<lambda>grp. walkGroup returnsAtEnd grp node) resultGroups st2 = Inr st3"
    and r: "r = (sortedResult getAsOpaquePointer (outsidesVars st3), cvNames st3, cvVarCounter st3)"
    unfolding s collectVars_def beforeScan_def by (auto simp: bindE_eq_Inr)
  show ?thesis
    unfolding s collectVarsRet_def beforeScanRet_def
    by (simp add: parallelWalk_returned [OF pw] Let_def r
          walkGroups_returned [OF b, symmetric] walkGroups_returned [OF c, symmetric]
          walkGroups_returned [OF d, symmetric])
qed

lemma collectVars_returnsAtEnd:
  "collectVars True getAsOpaquePointer node s = collectVarsRet getAsOpaquePointer node s"
proof -
  obtain vm vc where s: "s = (vm, vc)" by (cases s)
  show ?thesis
    unfolding s collectVars_def collectVarsRet_def beforeScan_def beforeScanRet_def
    by (cases "parallelWalkRet node vm")
       (simp_all add: parallelWalk_returnsAtEnd walkGroups_returnsAtEnd Let_def)
qed

lemma collectVars_char:
  assumes "collectVars returnsAtEnd getAsOpaquePointer node (vm, vc) = Inr (outsideVars, vm', vc')"
  shows "\<exists>vm1. parallelWalkRet node vm = Inr vm1 \<and> vm1 \<subseteq>\<^sub>m vm'
         \<and> outsideVars =
             firstEncounter (\<lambda>v. hasName vm v \<or> v \<in> set (namedFirst node)) (scanOrder node)"
  using collectVarsRet_char [OF collectVars_returned [OF assms]] .

lemma collectVars_returns:
  assumes "\<forall>p \<in> set (walk node). length (getIVs p) \<le> 3"
  shows "\<exists>outsideVars vm' vc'.
           collectVars True getAsOpaquePointer node (vm, vc) = Inr (outsideVars, vm', vc')"
  unfolding collectVars_returnsAtEnd using collectVarsRet_returns [OF assms] .

subsection \<open>Names of the parallel induction variables (C6)\<close>

lemma parallel_names_of_result:
  assumes "collectVars returnsAtEnd getAsOpaquePointer (AffineParallelOp ivs body) (vm, vc)
             = Inr (outsideVars, vm', vc')"
    and "distinct (parallelIVs (AffineParallelOp ivs body))"
    and "\<forall>v \<in> set (parallelIVs (AffineParallelOp ivs body)). vm v = None"
  shows "length ivs \<le> 3
       \<and> (\<forall>i < length ivs.
            vm' (ivs ! i) = Some (''blockIdx.'' @ [''x'', ''y'', ''z''] ! (length ivs - i - 1)))
       \<and> (\<forall>ivs' body'. AffineParallelOp ivs' body' \<in> set (concat (map walk body)) \<longrightarrow>
            length ivs' \<le> 3
            \<and> (\<forall>i < length ivs'.
                 vm' (ivs' ! i) = Some (''threadIdx.'' @ [''x'', ''y'', ''z''] ! (length ivs' - i - 1))))"
proof -
  let ?node = "AffineParallelOp ivs body"
  from collectVars_char [OF assms(1)]
  obtain vm1 where pw: "parallelWalkRet ?node vm = Inr vm1" and le: "vm1 \<subseteq>\<^sub>m vm'" by blast
  note pl = parallelWalk_list [OF pw [unfolded parallelWalkRet_def]]
  have bound: "\<forall>p \<in> set (walk ?node). length (getIVs p) \<le> 3"
    using pl by (rule conjunct2 [THEN conjunct2, THEN conjunct1])
  have dist: "distinct (concat (map getIVs (walk ?node))) \<and>
        (\<forall>v \<in> set (concat (map getIVs (walk ?node))). vm v = None)"
    using assms(2,3) by (simp only: parallelIVs_def)
  have names: "\<forall>p \<in> set (walk ?node). \<forall>i < length (getIVs p). vm1 (getIVs p ! i) =
               Some ((if p = ?node then ''blockIdx.'' else ''threadIdx.'') @
                     int3str ! (length (getIVs p) - i - 1))"
    using pl [THEN conjunct2, THEN conjunct2, THEN conjunct2, THEN mp, OF dist] .
  have up: "\<And>v n. vm1 v = Some n \<Longrightarrow> vm' v = Some n"
    using le by (auto simp: map_le_def dom_def)
  have self: "?node \<in> set (walk ?node)" by simp
  have g: "getIVs ?node = ivs" by (simp add: getIVs_def)
  have a: "length ivs \<le> 3" using bspec [OF bound self] unfolding g .
  have b: "\<forall>i < length ivs.
            vm' (ivs ! i) = Some (''blockIdx.'' @ [''x'', ''y'', ''z''] ! (length ivs - i - 1))"
  proof (intro allI impI)
    fix i assume "i < length ivs"
    then have "vm1 (ivs ! i) = Some (''blockIdx.'' @ int3str ! (length ivs - i - 1))"
      using bspec [OF names self, unfolded g, rule_format, of i] by simp
    then show "vm' (ivs ! i) = Some (''blockIdx.'' @ [''x'', ''y'', ''z''] ! (length ivs - i - 1))"
      using up by (simp add: int3str_def)
  qed
  have c: "\<forall>ivs' body'. AffineParallelOp ivs' body' \<in> set (concat (map walk body)) \<longrightarrow>
            length ivs' \<le> 3
            \<and> (\<forall>i < length ivs'.
                 vm' (ivs' ! i) = Some (''threadIdx.'' @ [''x'', ''y'', ''z''] ! (length ivs' - i - 1)))"
  proof (intro allI impI)
    fix ivs' body' assume n: "AffineParallelOp ivs' body' \<in> set (concat (map walk body))"
    let ?p = "AffineParallelOp ivs' body'"
    have ne: "?p \<noteq> ?node" using nested_not_node [OF n] .
    have mem: "?p \<in> set (walk ?node)" using n by simp
    have g': "getIVs ?p = ivs'" by (simp add: getIVs_def)
    have l: "length ivs' \<le> 3" using bspec [OF bound mem] unfolding g' .
    have "\<forall>i < length ivs'.
                 vm' (ivs' ! i) = Some (''threadIdx.'' @ [''x'', ''y'', ''z''] ! (length ivs' - i - 1))"
    proof (intro allI impI)
      fix i assume i: "i < length ivs'"
      have "vm1 (ivs' ! i) =
               Some ((if ?p = ?node then ''blockIdx.'' else ''threadIdx.'') @
                     int3str ! (length ivs' - i - 1))"
        using bspec [OF names mem, unfolded g', rule_format, OF i] .
      then have "vm1 (ivs' ! i) = Some (''threadIdx.'' @ int3str ! (length ivs' - i - 1))"
        using ne by simp
      then show "vm' (ivs' ! i) = Some (''threadIdx.'' @ [''x'', ''y'', ''z''] ! (length ivs' - i - 1))"
        using up by (simp add: int3str_def)
    qed
    with l show "length ivs' \<le> 3
            \<and> (\<forall>i < length ivs'.
                 vm' (ivs' ! i) = Some (''threadIdx.'' @ [''x'', ''y'', ''z''] ! (length ivs' - i - 1)))"
      by (rule conjI)
  qed
  show ?thesis using a b c by (intro conjI)
qed

text \<open>
  C6. Whenever \<open>collectVars\<close> returns for a kernel whose parallel induction variables are
  distinct values with no name yet, the name table it leaves names the induction variables
  of the kernel's own parallel operation \<open>blockIdx.\<close> followed by \<open>x\<close> for the last one,
  \<open>y\<close> for the one before it and \<open>z\<close> for the one before that, and those of every parallel
  operation nested in it \<open>threadIdx.\<close> in the same way. It does return, in a build where
  \<open>setValueName\<close> comes back from storing a name, when no parallel operation has more than
  three induction variables.
\<close>

theorem parallel_induction_variable_names:
  assumes "distinct (parallelIVs (AffineParallelOp ivs body))"
    and "\<forall>v \<in> set (parallelIVs (AffineParallelOp ivs body)). vm v = None"
  shows "(\<forall>returnsAtEnd outsideVars vm' vc'.
            collectVars returnsAtEnd getAsOpaquePointer (AffineParallelOp ivs body) (vm, vc)
              = Inr (outsideVars, vm', vc') \<longrightarrow>
            (\<forall>i < length ivs.
               vm' (ivs ! i) = Some (''blockIdx.'' @ [''x'', ''y'', ''z''] ! (length ivs - i - 1)))
          \<and> (\<forall>ivs' body'. AffineParallelOp ivs' body' \<in> set (concat (map walk body)) \<longrightarrow>
               (\<forall>i < length ivs'.
                  vm' (ivs' ! i) =
                    Some (''threadIdx.'' @ [''x'', ''y'', ''z''] ! (length ivs' - i - 1)))))
       \<and> ((\<forall>p \<in> set (walk (AffineParallelOp ivs body)). length (getIVs p) \<le> 3) \<longrightarrow>
            (\<exists>outsideVars vm' vc'.
               collectVars True getAsOpaquePointer (AffineParallelOp ivs body) (vm, vc)
                 = Inr (outsideVars, vm', vc')))"
proof (intro conjI allI impI)
  fix returnsAtEnd outsideVars vm' vc' i
  assume eq: "collectVars returnsAtEnd getAsOpaquePointer (AffineParallelOp ivs body) (vm, vc)
              = Inr (outsideVars, vm', vc')"
    and i: "i < length ivs"
  show "vm' (ivs ! i) = Some (''blockIdx.'' @ [''x'', ''y'', ''z''] ! (length ivs - i - 1))"
    using parallel_names_of_result [OF eq assms, THEN conjunct2, THEN conjunct1, rule_format, OF i] .
next
  fix returnsAtEnd outsideVars vm' vc' ivs' body' i
  assume eq: "collectVars returnsAtEnd getAsOpaquePointer (AffineParallelOp ivs body) (vm, vc)
              = Inr (outsideVars, vm', vc')"
    and n: "AffineParallelOp ivs' body' \<in> set (concat (map walk body))"
    and i: "i < length ivs'"
  show "vm' (ivs' ! i) = Some (''threadIdx.'' @ [''x'', ''y'', ''z''] ! (length ivs' - i - 1))"
    using parallel_names_of_result [OF eq assms, THEN conjunct2, THEN conjunct2, rule_format, OF n,
        THEN conjunct2, rule_format, OF i] .
next
  assume "\<forall>p \<in> set (walk (AffineParallelOp ivs body)). length (getIVs p) \<le> 3"
  then show "\<exists>outsideVars vm' vc'.
               collectVars True getAsOpaquePointer (AffineParallelOp ivs body) (vm, vc)
                 = Inr (outsideVars, vm', vc')"
    by (rule collectVars_returns)
qed

theorem parallel_induction_variable_names_witness:
  "case collectVars True getImpl
       (AffineParallelOp [Value 11 (ScalarType IndexType), Value 12 (ScalarType IndexType)]
          [AffineParallelOp
             [Value 13 (ScalarType IndexType), Value 14 (ScalarType IndexType),
              Value 15 (ScalarType IndexType)]
             [AffineYieldOp],
           AffineYieldOp])
       (Map.empty, 0) of
     Inl e \<Rightarrow> False
   | Inr (outsideVars, vm', vc') \<Rightarrow>
       vm' (Value 11 (ScalarType IndexType)) = Some ''blockIdx.y''
     \<and> vm' (Value 12 (ScalarType IndexType)) = Some ''blockIdx.x''
     \<and> vm' (Value 13 (ScalarType IndexType)) = Some ''threadIdx.z''
     \<and> vm' (Value 14 (ScalarType IndexType)) = Some ''threadIdx.y''
     \<and> vm' (Value 15 (ScalarType IndexType)) = Some ''threadIdx.x''"
proof -
  let ?inner = "[Value 13 (ScalarType IndexType), Value 14 (ScalarType IndexType),
              Value 15 (ScalarType IndexType)]"
  let ?ivs = "[Value 11 (ScalarType IndexType), Value 12 (ScalarType IndexType)]"
  let ?body = "[AffineParallelOp ?inner [AffineYieldOp], AffineYieldOp]"
  let ?node = "AffineParallelOp ?ivs ?body"
  have l: "\<forall>p \<in> set (walk ?node). length (getIVs p) \<le> 3" by (simp add: getIVs_def)
  have p: "parallelIVs ?node = ?ivs @ ?inner" by (simp add: parallelIVs_def getIVs_def)
  have d: "distinct (parallelIVs ?node)" unfolding p by simp
  have f: "\<forall>v \<in> set (parallelIVs ?node). Map.empty v = None" by simp
  note t = parallel_induction_variable_names [OF d f, of getImpl 0]
  from t [THEN conjunct2, THEN mp, OF l] obtain outsideVars vm' vc' where
    eq: "collectVars True getImpl ?node (Map.empty, 0) = Inr (outsideVars, vm', vc')"
    by (elim exE)
  note u = t [THEN conjunct1, rule_format, OF eq]
  have b: "\<forall>i < length ?ivs.
            vm' (?ivs ! i) = Some (''blockIdx.'' @ [''x'', ''y'', ''z''] ! (length ?ivs - i - 1))"
    using u by (rule conjunct1)
  have n: "AffineParallelOp ?inner [AffineYieldOp] \<in> set (concat (map walk ?body))" by simp
  have c: "\<forall>i < length ?inner.
            vm' (?inner ! i) = Some (''threadIdx.'' @ [''x'', ''y'', ''z''] ! (length ?inner - i - 1))"
    using u [THEN conjunct2, rule_format, OF n] by (intro allI impI)
  have "vm' (Value 11 (ScalarType IndexType)) = Some ''blockIdx.y''"
    using b [rule_format, of 0] by simp
  moreover have "vm' (Value 12 (ScalarType IndexType)) = Some ''blockIdx.x''"
    using b [rule_format, of 1] by simp
  moreover have "vm' (Value 13 (ScalarType IndexType)) = Some ''threadIdx.z''"
    using c [rule_format, of 0] by simp
  moreover have "vm' (Value 14 (ScalarType IndexType)) = Some ''threadIdx.y''"
    using c [rule_format, of 1] by simp
  moreover have "vm' (Value 15 (ScalarType IndexType)) = Some ''threadIdx.x''"
    using c [rule_format, of 2] by simp
  ultimately show ?thesis unfolding eq by simp
qed

subsection \<open>Alloc results are never captured (C10)\<close>

lemma alloc_not_in_result:
  assumes "collectVars returnsAtEnd getAsOpaquePointer node (vm, vc) = Inr (outsideVars, vm', vc')"
    and "AllocOp r \<in> set (walk node)"
  shows "r \<notin> set outsideVars \<and> r \<in> set (namedFirst node)
       \<and> (\<forall>v \<in> set outsideVars. vm v = None \<and> v \<notin> set (namedFirst node))"
proof -
  from collectVars_char [OF assms(1)]
  have o: "outsideVars =
      firstEncounter (\<lambda>v. hasName vm v \<or> v \<in> set (namedFirst node)) (scanOrder node)"
    by blast
  have "r \<in> set (namedFirstOf (AllocOp r))" by (simp add: namedFirstOf_def)
  then have r: "r \<in> set (namedFirst node)"
    using assms(2) unfolding namedFirst_def by auto
  have u: "\<forall>v \<in> set outsideVars. \<not> (hasName vm v \<or> v \<in> set (namedFirst node))"
    unfolding o using firstEncounter_unnamed by blast
  then have "\<forall>v \<in> set outsideVars. vm v = None \<and> v \<notin> set (namedFirst node)"
    by (simp add: hasName_def)
  moreover have "r \<notin> set outsideVars" using u r by blast
  ultimately show ?thesis using r by blast
qed

text \<open>
  C10. Whenever \<open>collectVars\<close> returns, a value produced by an \<open>AllocOp\<close> inside the kernel
  is not in the list it returns: the value is among those named before the loads and stores
  are scanned, and every captured value had no name at the start and is not among those. It
  does return, in a build where \<open>setValueName\<close> comes back from storing a name, when no
  parallel operation has more than three induction variables.
\<close>

theorem alloc_never_captured:
  assumes "AllocOp r \<in> set (walk node)"
  shows "(\<forall>returnsAtEnd outsideVars vm' vc'.
            collectVars returnsAtEnd getAsOpaquePointer node (vm, vc)
              = Inr (outsideVars, vm', vc') \<longrightarrow>
            r \<notin> set outsideVars \<and> r \<in> set (namedFirst node)
          \<and> (\<forall>v \<in> set outsideVars. vm v = None \<and> v \<notin> set (namedFirst node)))
       \<and> ((\<forall>p \<in> set (walk node). length (getIVs p) \<le> 3) \<longrightarrow>
            (\<exists>outsideVars vm' vc'.
               collectVars True getAsOpaquePointer node (vm, vc) = Inr (outsideVars, vm', vc')))"
proof (intro conjI allI impI)
  fix returnsAtEnd outsideVars vm' vc'
  assume eq: "collectVars returnsAtEnd getAsOpaquePointer node (vm, vc)
              = Inr (outsideVars, vm', vc')"
  note t = alloc_not_in_result [OF eq assms]
  show "r \<notin> set outsideVars" using t by (rule conjunct1)
  show "r \<in> set (namedFirst node)" using t by (rule conjunct2 [THEN conjunct1])
  show "\<forall>v \<in> set outsideVars. vm v = None \<and> v \<notin> set (namedFirst node)"
    using t by (rule conjunct2 [THEN conjunct2])
next
  assume "\<forall>p \<in> set (walk node). length (getIVs p) \<le> 3"
  then show "\<exists>outsideVars vm' vc'.
               collectVars True getAsOpaquePointer node (vm, vc) = Inr (outsideVars, vm', vc')"
    by (rule collectVars_returns)
qed

theorem alloc_never_captured_witness:
  "case collectVars True getImpl
       (AffineParallelOp [Value 11 (ScalarType IndexType)]
          [AffineParallelOp [Value 12 (ScalarType IndexType)]
             [AllocOp (Value 13 (MemRefType Float32Type [8] shared)),
              AffineLoadOp (Value 14 (ScalarType Float32Type))
                (Value 13 (MemRefType Float32Type [8] shared))
                [AffineDimExpr 0] [Value 12 (ScalarType IndexType)],
              AffineStoreOp (Value 14 (ScalarType Float32Type))
                (Value 15 (MemRefType Float32Type [8] global))
                [AffineDimExpr 0] [Value 12 (ScalarType IndexType)],
              AffineYieldOp],
           AffineYieldOp])
       (Map.empty, 0) of
     Inl e \<Rightarrow> False
   | Inr (outsideVars, vm', vc') \<Rightarrow>
       Value 13 (MemRefType Float32Type [8] shared) \<notin> set outsideVars
     \<and> outsideVars = [Value 15 (MemRefType Float32Type [8] global)]"
proof -
  let ?node = "AffineParallelOp [Value 11 (ScalarType IndexType)]
          [AffineParallelOp [Value 12 (ScalarType IndexType)]
             [AllocOp (Value 13 (MemRefType Float32Type [8] shared)),
              AffineLoadOp (Value 14 (ScalarType Float32Type))
                (Value 13 (MemRefType Float32Type [8] shared))
                [AffineDimExpr 0] [Value 12 (ScalarType IndexType)],
              AffineStoreOp (Value 14 (ScalarType Float32Type))
                (Value 15 (MemRefType Float32Type [8] global))
                [AffineDimExpr 0] [Value 12 (ScalarType IndexType)],
              AffineYieldOp],
           AffineYieldOp]"
  have l: "\<forall>p \<in> set (walk ?node). length (getIVs p) \<le> 3" by (simp add: getIVs_def)
  have m: "AllocOp (Value 13 (MemRefType Float32Type [8] shared)) \<in> set (walk ?node)" by simp
  note t = alloc_never_captured [OF m, of getImpl Map.empty 0]
  from t [THEN conjunct2, THEN mp, OF l] obtain outsideVars vm' vc' where
    eq: "collectVars True getImpl ?node (Map.empty, 0) = Inr (outsideVars, vm', vc')"
    by (elim exE)
  have n: "Value 13 (MemRefType Float32Type [8] shared) \<notin> set outsideVars"
    using t [THEN conjunct1, rule_format, OF eq] by (rule conjunct1)
  have r: "map_sum id fst (collectVars True getImpl ?node (Map.empty, 0)) =
           Inr [Value 15 (MemRefType Float32Type [8] global)]" by code_simp
  have o: "outsideVars = [Value 15 (MemRefType Float32Type [8] global)]"
    using r unfolding eq by simp
  show ?thesis unfolding eq using n o by simp
qed

subsection \<open>The order of the captured free variables (C2)\<close>

lemma in_set_map_filter:
  "e \<in> set (List.map_filter f xs) \<longleftrightarrow> (\<exists>x \<in> set xs. f x = Some e)"
  by (induction xs) (auto simp: List.map_filter_simps split: option.splits)

lemma firstEncounter_memref:
  "v \<in> set (firstEncounter named events) \<Longrightarrow> Some v \<in> set (map fst events)"
proof (induction events arbitrary: named)
  case Nil
  then show ?case by simp
next
  case (Cons e events)
  obtain mem results where e: "e = (mem, results)" by (cases e)
  from Cons.prems e have
    "v \<in> set (case mem of None \<Rightarrow> [] | Some m \<Rightarrow> if named m then [] else [m])
     \<or> v \<in> set (firstEncounter (\<lambda>v. named v \<or> Some v = mem \<or> v \<in> set results) events)"
    by simp
  then show ?case
  proof
    assume "v \<in> set (case mem of None \<Rightarrow> [] | Some m \<Rightarrow> if named m then [] else [m])"
    then have "mem = Some v" by (cases mem) (auto split: if_splits)
    then show ?thesis by (simp add: e)
  next
    assume "v \<in> set (firstEncounter (\<lambda>v. named v \<or> Some v = mem \<or> v \<in> set results) events)"
    from Cons.IH [OF this] show ?thesis by simp
  qed
qed

lemma firstEncounter_captures:
  assumes "Some m \<in> set (map fst events)" and "\<not> named m"
    and "m \<notin> set (concat (map snd events))"
  shows "m \<in> set (firstEncounter named events)"
  using assms
proof (induction events arbitrary: named)
  case Nil
  then show ?case by simp
next
  case (Cons e events)
  obtain mem results where e: "e = (mem, results)" by (cases e)
  show ?case
  proof (cases "mem = Some m")
    case True
    then show ?thesis using Cons.prems(2) by (simp add: e)
  next
    case False
    then have a: "Some m \<in> set (map fst events)" using Cons.prems(1) by (auto simp: e)
    have b: "\<not> (named m \<or> Some m = mem \<or> m \<in> set results)"
      using Cons.prems(2,3) False by (auto simp: e)
    have c: "m \<notin> set (concat (map snd events))" using Cons.prems(3) by simp
    from Cons.IH [of "\<lambda>v. named v \<or> Some v = mem \<or> v \<in> set results", OF a b c]
    show ?thesis by (simp add: e)
  qed
qed

lemma scalarLoadOps_cases:
  "scalarLoadOps x = Some e \<Longrightarrow> affineLoadOps x = Some e \<or> memrefLoadOps x = Some e"
  by (cases x) (simp_all add: scalarLoadOps_def affineLoadOps_def memrefLoadOps_def)

lemma scalarLoaded_scanned:
  assumes "scalarLoaded node m"
  shows "Some m \<in> set (map fst (scanOrder node))"
proof -
  from assms obtain e where e: "e \<in> set (List.map_filter scalarLoadOps (walk node))"
    and f: "fst e = Some m"
    unfolding scalarLoaded_def by auto
  from e obtain x where x: "x \<in> set (walk node)" and s: "scalarLoadOps x = Some e"
    unfolding in_set_map_filter by blast
  from scalarLoadOps_cases [OF s] x
  have "e \<in> set (List.map_filter affineLoadOps (walk node))
      \<or> e \<in> set (List.map_filter memrefLoadOps (walk node))"
    unfolding in_set_map_filter by blast
  then have "e \<in> set (scanOrder node)" unfolding scanOrder_def by auto
  then show ?thesis using f by force
qed

lemma vector_load_first:
  assumes o: "outs =
      firstEncounter (\<lambda>v. hasName vm v \<or> v \<in> set (namedFirst node)) (scanOrder node)"
    and v1: "vectorLoaded node M1" and s2: "scalarLoaded node M2"
    and n2: "\<not> vectorLoaded node M2"
    and u1: "unnamedAtScan vm node M1" and u2: "unnamedAtScan vm node M2"
  shows "precedes M1 M2 outs"
proof -
  let ?N = "\<lambda>v. hasName vm v \<or> v \<in> set (namedFirst node)"
  let ?V = "List.map_filter vectorLoadOps (walk node)"
  let ?R = "List.map_filter affineLoadOps (walk node) @
     List.map_filter memrefLoadOps (walk node) @
     List.map_filter storeOps (walk node) @
     List.map_filter vectorStoreOps (walk node)"
  let ?xs = "firstEncounter ?N ?V"
  let ?ys = "firstEncounter (\<lambda>v. ?N v \<or> v \<in> eventVals ?V) ?R"
  have sc: "scanOrder node = ?V @ ?R" by (simp add: scanOrder_def)
  have outs: "outs = ?xs @ ?ys" unfolding o sc by (rule firstEncounter_append)
  have f1: "\<not> ?N M1" and f2: "\<not> ?N M2"
    using u1 u2 by (simp_all add: unnamedAtScan_def hasName_def)
  have r1: "M1 \<notin> set (concat (map snd ?V))"
    using u1 unfolding unnamedAtScan_def sc by simp
  have r2: "M2 \<notin> set (concat (map snd (scanOrder node)))"
    using u2 by (simp add: unnamedAtScan_def)
  have a: "M1 \<in> set ?xs"
    using firstEncounter_captures [where named = ?N, OF v1 [unfolded vectorLoaded_def] f1 r1] .
  have b: "M2 \<notin> set ?xs"
    using firstEncounter_memref [of M2 ?N ?V] n2 unfolding vectorLoaded_def by blast
  have "M2 \<in> set (firstEncounter ?N (scanOrder node))"
    using firstEncounter_captures [where named = ?N, OF scalarLoaded_scanned [OF s2] f2 r2] .
  then have c: "M2 \<in> set outs" unfolding o .
  have "takeWhile (\<lambda>z. z \<noteq> M2) (?xs @ ?ys) = ?xs @ takeWhile (\<lambda>z. z \<noteq> M2) ?ys"
    using b by (intro takeWhile_append2) auto
  then have "M1 \<in> set (takeWhile (\<lambda>z. z \<noteq> M2) outs)"
    unfolding outs using a by simp
  then show ?thesis using c by (simp add: precedes_def)
qed

lemma codegenParams_join:
  "codegenParams vm vars = Inr params \<Longrightarrow>
   \<exists>decls. map (varDeclear vm) vars = map Inr decls \<and> params = concat (map (\<lambda>d. '', '' @ d) decls)"
proof (induction vars arbitrary: params)
  case Nil
  then show ?case by simp
next
  case (Cons var vars)
  from Cons.prems obtain decl rest where d: "varDeclear vm var = Inr decl"
    and r: "codegenParams vm vars = Inr rest" and t: "params = '', '' @ decl @ rest"
    by (cases "varDeclear vm var"; cases "codegenParams vm vars") auto
  from Cons.IH [OF r] obtain decls where
    ds: "map (varDeclear vm) vars = map Inr decls" and rs: "rest = concat (map (\<lambda>d. '', '' @ d) decls)"
    by blast
  have "map (varDeclear vm) (var # vars) = map Inr (decl # decls)" using d ds by simp
  moreover have "params = concat (map (\<lambda>d. '', '' @ d) (decl # decls))" using t rs by simp
  ultimately show ?case by blast
qed

lemma codegenPrototypeParams_join:
  assumes "codegenPrototypeParams vm vars = Inr params"
  shows "\<exists>decls. map (varDeclear vm) vars = map Inr decls \<and> decls \<noteq> []
          \<and> params = hd decls @ concat (map (\<lambda>d. '', '' @ d) (tl decls))"
proof (cases vars)
  case Nil
  then show ?thesis using assms by (simp add: codegenPrototypeParams_def)
next
  case (Cons var vars')
  from assms Cons obtain decl rest where d: "varDeclear vm var = Inr decl"
    and r: "codegenParams vm vars' = Inr rest" and t: "params = decl @ rest"
    by (cases "varDeclear vm var"; cases "codegenParams vm vars'")
      (auto simp: codegenPrototypeParams_def)
  from codegenParams_join [OF r] obtain decls where
    ds: "map (varDeclear vm) vars' = map Inr decls" and rs: "rest = concat (map (\<lambda>d. '', '' @ d) decls)"
    by blast
  have "map (varDeclear vm) vars = map Inr (decl # decls)" using d ds Cons by simp
  moreover have "params = hd (decl # decls) @ concat (map (\<lambda>d. '', '' @ d) (tl (decl # decls)))"
    using t rs by simp
  ultimately show ?thesis by blast
qed

lemma codegenKernel_source:
  assumes "codegenKernel returnsAtEnd ndebug getAsOpaquePointer getParallelNumber curIndent node g = Inr g'"
  shows "\<exists>outsideVars vm vc params body.
      collectVars returnsAtEnd getAsOpaquePointer node (valueNameMap g, varCounter g) = Inr (outsideVars, vm, vc)
    \<and> codegenPrototypeParams vm outsideVars = Inr params
    \<and> source g' = source g @
         indent curIndent @ ''// grid dims:('' @ dimsText (getParallelNumber node) @ '')'' @
         '', block dims:('' @
         dimsText (getParallelNumber (last (filter isParallelOp (walk node)))) @ '')\<newline>'' @
         indent curIndent @ ''__global__ void '' @ fst (getKernelName (kernelCounter g)) @ ''('' @
         params @ '') {\<newline>'' @ body @ indent curIndent @ ''}\<newline>''"
proof -
  obtain outsideVars vm vc where cv:
    "collectVars returnsAtEnd getAsOpaquePointer node (valueNameMap g, varCounter g) = Inr (outsideVars, vm, vc)"
    using assms
    by (cases "collectVars returnsAtEnd getAsOpaquePointer node (valueNameMap g, varCounter g)") (auto simp: codegenKernel_def)
  have a: "cassert ndebug (length outsideVars \<noteq> 0) = Inr ()"
    using assms cv
    by (cases "cassert ndebug (length outsideVars \<noteq> 0)") (auto simp: codegenKernel_def)
  obtain params where pp: "codegenPrototypeParams vm outsideVars = Inr params"
    using assms cv a
    by (cases "codegenPrototypeParams vm outsideVars") (auto simp: codegenKernel_def Let_def)
  obtain body where bd: "codegenKernelBody ndebug vm (curIndent + 1)
              (case node of AffineParallelOp ivs body \<Rightarrow> body | _ \<Rightarrow> []) = Inr body"
    using assms cv a pp
    by (cases "codegenKernelBody ndebug vm (curIndent + 1)
              (case node of AffineParallelOp ivs body \<Rightarrow> body | _ \<Rightarrow> [])")
      (auto simp: codegenKernel_def Let_def)
  have "source g' = source g @
         indent curIndent @ ''// grid dims:('' @ dimsText (getParallelNumber node) @ '')'' @
         '', block dims:('' @
         dimsText (getParallelNumber (last (filter isParallelOp (walk node)))) @ '')\<newline>'' @
         indent curIndent @ ''__global__ void '' @ fst (getKernelName (kernelCounter g)) @ ''('' @
         params @ '') {\<newline>'' @ body @ indent curIndent @ ''}\<newline>''"
    using assms cv a pp bd by (auto simp: codegenKernel_def Let_def)
  then show ?thesis using cv pp by blast
qed

lemma free_variables_of_result:
  assumes "collectVars returnsAtEnd getAsOpaquePointer node (vm, vc) = Inr (outsideVars, vm', vc')"
  shows "outsideVars =
           firstEncounter (\<lambda>v. hasName vm v \<or> v \<in> set (namedFirst node)) (scanOrder node)
       \<and> (\<forall>g g'. valueNameMap g = vm \<and> varCounter g = vc \<and>
             codegenKernel returnsAtEnd ndebug getAsOpaquePointer getParallelNumber curIndent node g = Inr g' \<longrightarrow>
             (\<exists>decls body. map (varDeclear vm') outsideVars = map Inr decls \<and> decls \<noteq> [] \<and>
                source g' = source g @
                  indent curIndent @ ''// grid dims:('' @ dimsText (getParallelNumber node) @ '')'' @
                  '', block dims:('' @
                  dimsText (getParallelNumber (last (filter isParallelOp (walk node)))) @ '')\<newline>'' @
                  indent curIndent @ ''__global__ void '' @ fst (getKernelName (kernelCounter g)) @
                  ''('' @ hd decls @ concat (map (\<lambda>d. '', '' @ d) (tl decls)) @ '') {\<newline>'' @
                  body @ indent curIndent @ ''}\<newline>''))"
proof (intro conjI allI impI)
  show "outsideVars =
           firstEncounter (\<lambda>v. hasName vm v \<or> v \<in> set (namedFirst node)) (scanOrder node)"
    using collectVars_char [OF assms] by blast
next
  fix g g'
  assume h: "valueNameMap g = vm \<and> varCounter g = vc \<and>
             codegenKernel returnsAtEnd ndebug getAsOpaquePointer getParallelNumber curIndent node g = Inr g'"
  then have k: "codegenKernel returnsAtEnd ndebug getAsOpaquePointer getParallelNumber curIndent node g = Inr g'" by (rule conjunct2 [THEN conjunct2])
  from codegenKernel_source [OF k] obtain outs vm2 vc2 params body where
    cv: "collectVars returnsAtEnd getAsOpaquePointer node (valueNameMap g, varCounter g) = Inr (outs, vm2, vc2)"
    and pp: "codegenPrototypeParams vm2 outs = Inr params"
    and src: "source g' = source g @
         indent curIndent @ ''// grid dims:('' @ dimsText (getParallelNumber node) @ '')'' @
         '', block dims:('' @
         dimsText (getParallelNumber (last (filter isParallelOp (walk node)))) @ '')\<newline>'' @
         indent curIndent @ ''__global__ void '' @ fst (getKernelName (kernelCounter g)) @ ''('' @
         params @ '') {\<newline>'' @ body @ indent curIndent @ ''}\<newline>''"
    by blast
  have eq: "outs = outsideVars" "vm2 = vm'" using cv assms h by simp_all
  from codegenPrototypeParams_join [OF pp [unfolded eq]] obtain decls where
    ds: "map (varDeclear vm') outsideVars = map Inr decls" and ne: "decls \<noteq> []"
    and ps: "params = hd decls @ concat (map (\<lambda>d. '', '' @ d) (tl decls))"
    by blast
  show "\<exists>decls body. map (varDeclear vm') outsideVars = map Inr decls \<and> decls \<noteq> [] \<and>
                source g' = source g @
                  indent curIndent @ ''// grid dims:('' @ dimsText (getParallelNumber node) @ '')'' @
                  '', block dims:('' @
                  dimsText (getParallelNumber (last (filter isParallelOp (walk node)))) @ '')\<newline>'' @
                  indent curIndent @ ''__global__ void '' @ fst (getKernelName (kernelCounter g)) @
                  ''('' @ hd decls @ concat (map (\<lambda>d. '', '' @ d) (tl decls)) @ '') {\<newline>'' @
                  body @ indent curIndent @ ''}\<newline>''"
    by (intro exI [of _ decls] exI [of _ body] conjI) (simp_all add: ds ne src ps)
qed

text \<open>
  C2, as amended. Whenever \<open>collectVars\<close> returns, the list it returns is the list of
  memrefs of loads and stores that have no name when they are scanned, in the order of first
  encounter, the scan being five pre-order walks in this order: vector loads, affine loads,
  plain loads, affine stores, vector stores. In particular a memref \<open>M1\<close> that is
  vector-loaded comes before a memref \<open>M2\<close> that is scalar-loaded and not vector-loaded, when
  both are unnamed at the scan. A kernel that is generated declares its parameters from this
  list, in this order, separated by commas. \<open>collectVars\<close> does return, in a build where
  \<open>setValueName\<close> comes back from storing a name, when no parallel operation has more than
  three induction variables.
\<close>

theorem free_variable_order:
  "(\<forall>returnsAtEnd outsideVars vm' vc'.
      collectVars returnsAtEnd getAsOpaquePointer node (vm, vc) = Inr (outsideVars, vm', vc') \<longrightarrow>
        outsideVars =
          firstEncounter (\<lambda>v. hasName vm v \<or> v \<in> set (namedFirst node)) (scanOrder node)
      \<and> (vectorLoaded node M1 \<and> scalarLoaded node M2 \<and> \<not> vectorLoaded node M2
           \<and> unnamedAtScan vm node M1 \<and> unnamedAtScan vm node M2 \<longrightarrow>
         precedes M1 M2 outsideVars)
      \<and> (\<forall>g g'. valueNameMap g = vm \<and> varCounter g = vc \<and>
            codegenKernel returnsAtEnd ndebug getAsOpaquePointer getParallelNumber curIndent node g
              = Inr g' \<longrightarrow>
            (\<exists>decls body. map (varDeclear vm') outsideVars = map Inr decls \<and> decls \<noteq> [] \<and>
               source g' = source g @
                 indent curIndent @ ''// grid dims:('' @ dimsText (getParallelNumber node) @ '')'' @
                 '', block dims:('' @
                 dimsText (getParallelNumber (last (filter isParallelOp (walk node)))) @ '')\<newline>'' @
                 indent curIndent @ ''__global__ void '' @ fst (getKernelName (kernelCounter g)) @
                 ''('' @ hd decls @ concat (map (\<lambda>d. '', '' @ d) (tl decls)) @ '') {\<newline>'' @
                 body @ indent curIndent @ ''}\<newline>'')))
   \<and> ((\<forall>p \<in> set (walk node). length (getIVs p) \<le> 3) \<longrightarrow>
        (\<exists>outsideVars vm' vc'.
           collectVars True getAsOpaquePointer node (vm, vc) = Inr (outsideVars, vm', vc')))"
proof (rule conjI)
  show "\<forall>returnsAtEnd outsideVars vm' vc'.
      collectVars returnsAtEnd getAsOpaquePointer node (vm, vc) = Inr (outsideVars, vm', vc') \<longrightarrow>
        outsideVars =
          firstEncounter (\<lambda>v. hasName vm v \<or> v \<in> set (namedFirst node)) (scanOrder node)
      \<and> (vectorLoaded node M1 \<and> scalarLoaded node M2 \<and> \<not> vectorLoaded node M2
           \<and> unnamedAtScan vm node M1 \<and> unnamedAtScan vm node M2 \<longrightarrow>
         precedes M1 M2 outsideVars)
      \<and> (\<forall>g g'. valueNameMap g = vm \<and> varCounter g = vc \<and>
            codegenKernel returnsAtEnd ndebug getAsOpaquePointer getParallelNumber curIndent node g
              = Inr g' \<longrightarrow>
            (\<exists>decls body. map (varDeclear vm') outsideVars = map Inr decls \<and> decls \<noteq> [] \<and>
               source g' = source g @
                 indent curIndent @ ''// grid dims:('' @ dimsText (getParallelNumber node) @ '')'' @
                 '', block dims:('' @
                 dimsText (getParallelNumber (last (filter isParallelOp (walk node)))) @ '')\<newline>'' @
                 indent curIndent @ ''__global__ void '' @ fst (getKernelName (kernelCounter g)) @
                 ''('' @ hd decls @ concat (map (\<lambda>d. '', '' @ d) (tl decls)) @ '') {\<newline>'' @
                 body @ indent curIndent @ ''}\<newline>''))"
  proof (rule allI, rule allI, rule allI, rule allI, rule impI)
    fix returnsAtEnd outsideVars vm' vc'
    assume eq: "collectVars returnsAtEnd getAsOpaquePointer node (vm, vc)
                  = Inr (outsideVars, vm', vc')"
    note t = free_variables_of_result [OF eq, of ndebug getParallelNumber curIndent]
    have o: "outsideVars =
          firstEncounter (\<lambda>v. hasName vm v \<or> v \<in> set (namedFirst node)) (scanOrder node)"
      using t by (rule conjunct1)
    have p: "vectorLoaded node M1 \<and> scalarLoaded node M2 \<and> \<not> vectorLoaded node M2
           \<and> unnamedAtScan vm node M1 \<and> unnamedAtScan vm node M2 \<longrightarrow>
         precedes M1 M2 outsideVars"
    proof (rule impI)
      assume h: "vectorLoaded node M1 \<and> scalarLoaded node M2 \<and> \<not> vectorLoaded node M2
           \<and> unnamedAtScan vm node M1 \<and> unnamedAtScan vm node M2"
      show "precedes M1 M2 outsideVars"
        by (rule vector_load_first [OF o])
           (rule h [THEN conjunct1], rule h [THEN conjunct2, THEN conjunct1],
            rule h [THEN conjunct2, THEN conjunct2, THEN conjunct1],
            rule h [THEN conjunct2, THEN conjunct2, THEN conjunct2, THEN conjunct1],
            rule h [THEN conjunct2, THEN conjunct2, THEN conjunct2, THEN conjunct2])
    qed
    show "outsideVars =
          firstEncounter (\<lambda>v. hasName vm v \<or> v \<in> set (namedFirst node)) (scanOrder node)
      \<and> (vectorLoaded node M1 \<and> scalarLoaded node M2 \<and> \<not> vectorLoaded node M2
           \<and> unnamedAtScan vm node M1 \<and> unnamedAtScan vm node M2 \<longrightarrow>
         precedes M1 M2 outsideVars)
      \<and> (\<forall>g g'. valueNameMap g = vm \<and> varCounter g = vc \<and>
            codegenKernel returnsAtEnd ndebug getAsOpaquePointer getParallelNumber curIndent node g
              = Inr g' \<longrightarrow>
            (\<exists>decls body. map (varDeclear vm') outsideVars = map Inr decls \<and> decls \<noteq> [] \<and>
               source g' = source g @
                 indent curIndent @ ''// grid dims:('' @ dimsText (getParallelNumber node) @ '')'' @
                 '', block dims:('' @
                 dimsText (getParallelNumber (last (filter isParallelOp (walk node)))) @ '')\<newline>'' @
                 indent curIndent @ ''__global__ void '' @ fst (getKernelName (kernelCounter g)) @
                 ''('' @ hd decls @ concat (map (\<lambda>d. '', '' @ d) (tl decls)) @ '') {\<newline>'' @
                 body @ indent curIndent @ ''}\<newline>''))"
      by (rule conjI [OF o conjI [OF p t [THEN conjunct2]]])
  qed
  show "(\<forall>p \<in> set (walk node). length (getIVs p) \<le> 3) \<longrightarrow>
        (\<exists>outsideVars vm' vc'.
           collectVars True getAsOpaquePointer node (vm, vc) = Inr (outsideVars, vm', vc'))"
    by (rule impI) (rule collectVars_returns)
qed

theorem free_variable_order_witness:
  "(case collectVars True getImpl
       (AffineParallelOp [Value 11 (ScalarType IndexType)]
          [AffineParallelOp [Value 12 (ScalarType IndexType)]
             [AffineVectorLoadOp (Value 13 (VectorType Float32Type [4]))
                (Value 21 (MemRefType Float32Type [8] global))
                [AffineDimExpr 0] [Value 12 (ScalarType IndexType)],
              AffineLoadOp (Value 14 (ScalarType Float32Type))
                (Value 20 (MemRefType Float32Type [8] global))
                [AffineDimExpr 0] [Value 12 (ScalarType IndexType)],
              AffineYieldOp],
           AffineYieldOp])
       (Map.empty, 0) of
     Inl e \<Rightarrow> False
   | Inr (outsideVars, vm', vc') \<Rightarrow>
       outsideVars = [Value 21 (MemRefType Float32Type [8] global),
                      Value 20 (MemRefType Float32Type [8] global)]
     \<and> precedes (Value 21 (MemRefType Float32Type [8] global))
         (Value 20 (MemRefType Float32Type [8] global)) outsideVars)
   \<and> map_sum id source
       (codegenKernel True False getImpl (\<lambda>_. [1]) 0
          (AffineParallelOp [Value 11 (ScalarType IndexType)]
          [AffineParallelOp [Value 12 (ScalarType IndexType)]
             [AffineVectorLoadOp (Value 13 (VectorType Float32Type [4]))
                (Value 21 (MemRefType Float32Type [8] global))
                [AffineDimExpr 0] [Value 12 (ScalarType IndexType)],
              AffineLoadOp (Value 14 (ScalarType Float32Type))
                (Value 20 (MemRefType Float32Type [8] global))
                [AffineDimExpr 0] [Value 12 (ScalarType IndexType)],
              AffineYieldOp],
           AffineYieldOp])
          \<lparr>kernelCounter = 0, varCounter = 0, source = [], valueNameMap = Map.empty\<rparr>)
     = Inr (''// grid dims:(1, ), block dims:(1, )\<newline>'' @
            ''__global__ void kernel0(float* arg0, float* arg1) {\<newline>'' @
            ''  auto vec0 = (reinterpret_cast<float4*>(&(arg0[threadIdx.x * 1 + 0]))[0]);\<newline>'' @
            ''  auto R0 = arg1[threadIdx.x * 1 + 0];\<newline>'' @
            ''}\<newline>'')"
proof -
  let ?M1 = "Value 21 (MemRefType Float32Type [8] global)"
  let ?M2 = "Value 20 (MemRefType Float32Type [8] global)"
  let ?node = "AffineParallelOp [Value 11 (ScalarType IndexType)]
          [AffineParallelOp [Value 12 (ScalarType IndexType)]
             [AffineVectorLoadOp (Value 13 (VectorType Float32Type [4])) ?M1
                [AffineDimExpr 0] [Value 12 (ScalarType IndexType)],
              AffineLoadOp (Value 14 (ScalarType Float32Type)) ?M2
                [AffineDimExpr 0] [Value 12 (ScalarType IndexType)],
              AffineYieldOp],
           AffineYieldOp]"
  have l: "\<forall>p \<in> set (walk ?node). length (getIVs p) \<le> 3" by (simp add: getIVs_def)
  note t = free_variable_order [where node = ?node and vm = Map.empty and vc = 0
      and getAsOpaquePointer = getImpl and ndebug = False and getParallelNumber = "\<lambda>_. [1]"
      and curIndent = 0 and ?M1.0 = ?M1 and ?M2.0 = ?M2]
  from t [THEN conjunct2, THEN mp, OF l] obtain outsideVars vm' vc' where
    eq: "collectVars True getImpl ?node (Map.empty, 0) = Inr (outsideVars, vm', vc')"
    by (elim exE)
  note u = t [THEN conjunct1, rule_format, OF eq]
  have f: "outsideVars =
      firstEncounter (\<lambda>v. hasName Map.empty v \<or> v \<in> set (namedFirst ?node)) (scanOrder ?node)"
    using u by (rule conjunct1)
  have e: "firstEncounter (\<lambda>v. hasName Map.empty v \<or> v \<in> set (namedFirst ?node)) (scanOrder ?node) =
      [?M1, ?M2]"
    by code_simp
  have o: "outsideVars = [?M1, ?M2]" using f unfolding e .
  have h: "vectorLoaded ?node ?M1 \<and> scalarLoaded ?node ?M2 \<and> \<not> vectorLoaded ?node ?M2
           \<and> unnamedAtScan Map.empty ?node ?M1 \<and> unnamedAtScan Map.empty ?node ?M2"
    by code_simp
  have p: "precedes ?M1 ?M2 outsideVars"
    using u [THEN conjunct2, THEN conjunct1] h by (rule mp)
  have k: "map_sum id source
       (codegenKernel True False getImpl (\<lambda>_. [1]) 0
          ?node
          \<lparr>kernelCounter = 0, varCounter = 0, source = [], valueNameMap = Map.empty\<rparr>)
     = Inr (''// grid dims:(1, ), block dims:(1, )\<newline>'' @
            ''__global__ void kernel0(float* arg0, float* arg1) {\<newline>'' @
            ''  auto vec0 = (reinterpret_cast<float4*>(&(arg0[threadIdx.x * 1 + 0]))[0]);\<newline>'' @
            ''  auto R0 = arg1[threadIdx.x * 1 + 0];\<newline>'' @
            ''}\<newline>'')"
    by code_simp
  show ?thesis unfolding eq using o p k by simp
qed

text \<open>
  A kernel with a plain load before an affine load: the memref of the affine load comes
  first, where one pre-order walk over all scalar loads would put it second.
\<close>

theorem free_variable_order_counterexample:
  "map_sum id fst (collectVars True getImpl
       (AffineParallelOp [Value 11 (ScalarType IndexType)]
          [AffineParallelOp [Value 12 (ScalarType IndexType)]
             [LoadOp (Value 13 (ScalarType Float32Type))
                (Value 22 (MemRefType Float32Type [8] global))
                [Value 12 (ScalarType IndexType)],
              AffineLoadOp (Value 14 (ScalarType Float32Type))
                (Value 21 (MemRefType Float32Type [8] global))
                [AffineDimExpr 0] [Value 12 (ScalarType IndexType)],
              AffineYieldOp],
           AffineYieldOp])
       (Map.empty, 0))
     = Inr [Value 21 (MemRefType Float32Type [8] global),
            Value 22 (MemRefType Float32Type [8] global)]
   \<and> firstEncounter
        (\<lambda>v. hasName Map.empty v \<or> v \<in> set (namedFirst
          (AffineParallelOp [Value 11 (ScalarType IndexType)]
          [AffineParallelOp [Value 12 (ScalarType IndexType)]
             [LoadOp (Value 13 (ScalarType Float32Type))
                (Value 22 (MemRefType Float32Type [8] global))
                [Value 12 (ScalarType IndexType)],
              AffineLoadOp (Value 14 (ScalarType Float32Type))
                (Value 21 (MemRefType Float32Type [8] global))
                [AffineDimExpr 0] [Value 12 (ScalarType IndexType)],
              AffineYieldOp],
           AffineYieldOp])))
        (claimedScanOrder
          (AffineParallelOp [Value 11 (ScalarType IndexType)]
          [AffineParallelOp [Value 12 (ScalarType IndexType)]
             [LoadOp (Value 13 (ScalarType Float32Type))
                (Value 22 (MemRefType Float32Type [8] global))
                [Value 12 (ScalarType IndexType)],
              AffineLoadOp (Value 14 (ScalarType Float32Type))
                (Value 21 (MemRefType Float32Type [8] global))
                [AffineDimExpr 0] [Value 12 (ScalarType IndexType)],
              AffineYieldOp],
           AffineYieldOp]))
     = [Value 22 (MemRefType Float32Type [8] global),
        Value 21 (MemRefType Float32Type [8] global)]"
  by code_simp

subsection \<open>Repeated generation (C8)\<close>

lemma globals_overwritten:
  "(g :: globals)\<lparr>source := s, kernelCounter := k, varCounter := v, valueNameMap := m\<rparr> =
     \<lparr>kernelCounter = k, varCounter = v, source = s, valueNameMap = m\<rparr>"
  by (cases g) simp

lemma collectVars_capture_order:
  assumes b: "forEachE (\<lambda>grp. walkGroup returnsAtEnd grp node) namingGroups
              \<lparr>cvNames = vm1, cvVarCounter = vc, outsidesVars = [], cvId = 0\<rparr> = Inr st1"
    and c: "forEachE (\<lambda>grp. walkGroup returnsAtEnd grp node) scanGroups st1 = Inr st2"
    and d: "forEachE (\<lambda>grp. walkGroup returnsAtEnd grp node) resultGroups st2 = Inr st3"
  shows "sortedResult getAsOpaquePointer (outsidesVars st3) = map fst (outsidesVars st3)"
proof -
  let ?st0 = "\<lparr>cvNames = vm1, cvVarCounter = vc, outsidesVars = [], cvId = 0\<rparr>"
  have inv0: "cvInv ?st0" by (simp add: cvInv_def)
  have inv1: "cvInv st1"
    using groups_effect [OF inv0, of node namingGroups, THEN conjunct1]
    unfolding walkGroups_returned [OF b, symmetric] .
  have inv2: "cvInv st2"
    using groups_effect [OF inv1, of node scanGroups, THEN conjunct1]
    unfolding walkGroups_returned [OF c, symmetric] .
  have inv3: "cvInv st3"
    using groups_effect [OF inv2, of node resultGroups, THEN conjunct1]
    unfolding walkGroups_returned [OF d, symmetric] .
  show ?thesis
    using inv3 sortedResult_insertion_order [of "outsidesVars st3" "cvId st3"]
    by (simp add: cvInv_def)
qed

lemma collectVars_address:
  "collectVars returnsAtEnd addr node s = collectVars returnsAtEnd addr' node s"
proof -
  obtain vm vc where s: "s = (vm, vc)" by (cases s)
  show ?thesis
  proof (cases "parallelWalk returnsAtEnd node vm")
    case (Inl e)
    then show ?thesis by (simp add: s collectVars_def)
  next
    case pw: (Inr vm1)
    let ?st0 = "\<lparr>cvNames = vm1, cvVarCounter = vc, outsidesVars = [], cvId = 0\<rparr>"
    show ?thesis
    proof (cases "forEachE (\<lambda>grp. walkGroup returnsAtEnd grp node) namingGroups ?st0")
      case (Inl e)
      then show ?thesis by (simp add: s collectVars_def beforeScan_def pw)
    next
      case b: (Inr st1)
      show ?thesis
      proof (cases "forEachE (\<lambda>grp. walkGroup returnsAtEnd grp node) scanGroups st1")
        case (Inl e)
        then show ?thesis by (simp add: s collectVars_def beforeScan_def pw b)
      next
        case c: (Inr st2)
        show ?thesis
        proof (cases "forEachE (\<lambda>grp. walkGroup returnsAtEnd grp node) resultGroups st2")
          case (Inl e)
          then show ?thesis by (simp add: s collectVars_def beforeScan_def pw b c)
        next
          case d: (Inr st3)
          show ?thesis
            by (simp add: s collectVars_def beforeScan_def pw b c d
                  collectVars_capture_order [OF b c d])
        qed
      qed
    qed
  qed
qed

lemma codegenKernel_address:
  "codegenKernel returnsAtEnd ndebug addr getParallelNumber curIndent node g
     = codegenKernel returnsAtEnd ndebug addr' getParallelNumber curIndent node g"
  unfolding codegenKernel_def
  by (simp only: collectVars_address [of returnsAtEnd addr node _ addr'])

lemma codegenModule_address:
  "codegenModule returnsAtEnd ndebug addr getParallelNumber funcs g
     = codegenModule returnsAtEnd ndebug addr' getParallelNumber funcs g"
proof -
  have k: "codegenKernel returnsAtEnd ndebug addr getParallelNumber
             = codegenKernel returnsAtEnd ndebug addr' getParallelNumber"
    by (intro ext) (rule codegenKernel_address)
  show ?thesis unfolding codegenModule_def codegenFunc_def k by (rule refl)
qed

lemma CUDAGen_reset:
  "CUDAGen returnsAtEnd ndebug addr getParallelNumber funcs g
     = CUDAGen returnsAtEnd ndebug addr' getParallelNumber funcs g'"
  by (simp add: CUDAGen_def Let_def globals_overwritten
        codegenModule_address [of returnsAtEnd ndebug addr getParallelNumber funcs _ addr'])

text \<open>
  C8. What \<open>CUDAGen\<close> returns depends neither on the globals it finds nor on the addresses
  of the values: stream, counters and name table are overwritten before the module is
  walked, and the one iteration over a map ordered by address, at the end of \<open>collectVars\<close>,
  is followed by a sort on the capture ids, which yields the order of capture. So two runs on
  the same module return the same text, whatever the first run has left behind and wherever
  the values lie. The equation holds in every build; for a run that is lost it says that the
  other run is lost in the same way.
\<close>

theorem generation_deterministic:
  "CUDAGen returnsAtEnd ndebug getAsOpaquePointer getParallelNumber funcs g
     = CUDAGen returnsAtEnd ndebug getAsOpaquePointer' getParallelNumber funcs g'"
  by (rule CUDAGen_reset)

theorem generation_deterministic_witness:
  "CUDAGen True False getImpl (\<lambda>_. [1])
     [[AffineParallelOp [Value 11 (ScalarType IndexType)]
         [AffineParallelOp [Value 12 (ScalarType IndexType)]
            [AffineLoadOp (Value 14 (ScalarType Float32Type))
               (Value 30 (MemRefType Float32Type [8] global))
               [AffineDimExpr 0] [Value 12 (ScalarType IndexType)],
             AffineLoadOp (Value 15 (ScalarType Float32Type))
               (Value 20 (MemRefType Float32Type [8] global))
               [AffineDimExpr 0] [Value 12 (ScalarType IndexType)],
             AffineYieldOp],
          AffineYieldOp]]]
     \<lparr>kernelCounter = 3, varCounter = 5, source = ''left over'',
      valueNameMap = [Value 20 (MemRefType Float32Type [8] global) \<mapsto> ''old'']\<rparr>
   = CUDAGen True False (\<lambda>v. 100 - getImpl v) (\<lambda>_. [1])
     [[AffineParallelOp [Value 11 (ScalarType IndexType)]
         [AffineParallelOp [Value 12 (ScalarType IndexType)]
            [AffineLoadOp (Value 14 (ScalarType Float32Type))
               (Value 30 (MemRefType Float32Type [8] global))
               [AffineDimExpr 0] [Value 12 (ScalarType IndexType)],
             AffineLoadOp (Value 15 (ScalarType Float32Type))
               (Value 20 (MemRefType Float32Type [8] global))
               [AffineDimExpr 0] [Value 12 (ScalarType IndexType)],
             AffineYieldOp],
          AffineYieldOp]]]
     \<lparr>kernelCounter = 0, varCounter = 0, source = [], valueNameMap = Map.empty\<rparr>
   \<and> map_sum id fst (CUDAGen True False (\<lambda>v. 100 - getImpl v) (\<lambda>_. [1])
     [[AffineParallelOp [Value 11 (ScalarType IndexType)]
         [AffineParallelOp [Value 12 (ScalarType IndexType)]
            [AffineLoadOp (Value 14 (ScalarType Float32Type))
               (Value 30 (MemRefType Float32Type [8] global))
               [AffineDimExpr 0] [Value 12 (ScalarType IndexType)],
             AffineLoadOp (Value 15 (ScalarType Float32Type))
               (Value 20 (MemRefType Float32Type [8] global))
               [AffineDimExpr 0] [Value 12 (ScalarType IndexType)],
             AffineYieldOp],
          AffineYieldOp]]]
     \<lparr>kernelCounter = 0, varCounter = 0, source = [], valueNameMap = Map.empty\<rparr>)
     = Inr (''#include '' @ [CHR 0x22] @ ''cuda_runtime.h'' @ [CHR 0x22] @ ''\<newline>'' @
            ''// grid dims:(1, ), block dims:(1, )\<newline>'' @
            ''__global__ void kernel0(float* arg0, float* arg1) {\<newline>'' @
            ''  auto R0 = arg0[threadIdx.x * 1 + 0];\<newline>'' @
            ''  auto R1 = arg1[threadIdx.x * 1 + 0];\<newline>'' @
            ''}\<newline>'')"
proof -
  let ?m = "[[AffineParallelOp [Value 11 (ScalarType IndexType)]
         [AffineParallelOp [Value 12 (ScalarType IndexType)]
            [AffineLoadOp (Value 14 (ScalarType Float32Type))
               (Value 30 (MemRefType Float32Type [8] global))
               [AffineDimExpr 0] [Value 12 (ScalarType IndexType)],
             AffineLoadOp (Value 15 (ScalarType Float32Type))
               (Value 20 (MemRefType Float32Type [8] global))
               [AffineDimExpr 0] [Value 12 (ScalarType IndexType)],
             AffineYieldOp],
          AffineYieldOp]]]"
  let ?g0 = "\<lparr>kernelCounter = 0, varCounter = 0, source = [], valueNameMap = Map.empty\<rparr>"
  have k: "map_sum id fst (CUDAGen True False (\<lambda>v. 100 - getImpl v) (\<lambda>_. [1]) ?m ?g0)
     = Inr (''#include '' @ [CHR 0x22] @ ''cuda_runtime.h'' @ [CHR 0x22] @ ''\<newline>'' @
            ''// grid dims:(1, ), block dims:(1, )\<newline>'' @
            ''__global__ void kernel0(float* arg0, float* arg1) {\<newline>'' @
            ''  auto R0 = arg0[threadIdx.x * 1 + 0];\<newline>'' @
            ''  auto R1 = arg1[threadIdx.x * 1 + 0];\<newline>'' @
            ''}\<newline>'')"
    by code_simp
  show ?thesis
    by (rule conjI) (rule generation_deterministic, rule k)
qed

end
